theory Spec2Isabelle
  imports Main "HOL-Library.Word"
begin

section \<open>Data model: the pfs messages the driver handles\<close>

text \<open>
  The driver of \<^verbatim>\<open>src/pfs/drive/driver.go\<close> keeps four indexes over shared
  \<^verbatim>\<open>*pfs.DiffInfo\<close> objects. The messages are modelled as records. A
  \<^verbatim>\<open>*pfs.Commit\<close> that may be nil (a parent, a last reference) is a
  \<open>Commit option\<close>; a commit together with its repo name is a value. Shards, byte
  offsets and sizes are 64-bit machine integers.
\<close>

type_synonym shard = "64 word"

record Timestamp =
  Seconds :: int
  Nanos :: int

record Commit =
  RepoName :: string
  ID :: string

record Diff =
  Commit :: Commit
  Shard :: shard

record Block =
  Hash :: string

record ByteRange =
  Lower :: "64 word"
  Upper :: "64 word"

record BlockRef =
  Block :: Block
  BRange :: ByteRange

text \<open>
  \<^verbatim>\<open>Append.Children\<close> is a \<^verbatim>\<open>map[string]bool\<close> whose values are always true: a set
  of child paths, kept as a duplicate-free list (a nil and an empty map are both
  \<open>[]\<close>; the code only takes their \<^verbatim>\<open>len\<close>).
\<close>

record Append =
  BlockRefs :: "BlockRef list"
  Children :: "string list"
  LastRef :: "Commit option"

text \<open>
  \<^verbatim>\<open>DiffInfo.Appends\<close> is a map that may be nil (\<open>None\<close>): \<^verbatim>\<open>AddShard\<close> tests it
  against nil, reading a nil map finds nothing and writing to it panics.
\<close>

record DiffInfo =
  Diff :: Diff
  ParentCommit :: "Commit option"
  Appends :: "(string \<rightharpoonup> Append) option"
  SizeBytes :: "64 word"
  Started :: "Timestamp option"
  Finished :: "Timestamp option"
  Branch :: string

datatype error =
    RepoExists string
  | RepoNotFound string
  | CommitNotFound string string
  | CommitExists string string
  | BranchExistsAs string string string
  | BranchUnfinished string string
  | DiffNotFound string string
  | MixedDirRegular string string string
  | IsDirectory string string string
  | ErrFileNotFound
  | MultipleCommitInfos
  | DanglingParent string string
  | RPCError string
  | EOF
  | Panic string

definition NewCommit :: "string \<Rightarrow> string \<Rightarrow> Commit" where
  "NewCommit repoName commitID = \<lparr>RepoName = repoName, ID = commitID\<rparr>"

section \<open>The diff index\<close>

text \<open>
  \<^verbatim>\<open>type diffMap map[string]map[uint64]map[string]*pfs.DiffInfo\<close>. The entries are
  pointers: an address into the driver's store of DiffInfo objects. The nested maps
  of one index are not shared with another index, so each index is a value.
\<close>

type_synonym addr = nat
type_synonym commitMap = "string \<rightharpoonup> addr"
type_synonym shardMap = "shard \<rightharpoonup> commitMap"
type_synonym diffMap = "string \<rightharpoonup> shardMap"

definition diffMap_get :: "diffMap \<Rightarrow> Diff \<Rightarrow> addr option" where
  "diffMap_get d diff =
    (case d (RepoName (Commit diff)) of
       None \<Rightarrow> None
     | Some shardMap \<Rightarrow>
        (case shardMap (Shard diff) of
           None \<Rightarrow> None
         | Some commitMap \<Rightarrow> commitMap (ID (Commit diff))))"

text \<open>
  \<^verbatim>\<open>insert\<close> reads the key from the object it is given, so the model takes the store
  \<open>h\<close> and the object's address \<open>p\<close>. The existence test is on
  \<^verbatim>\<open>commitMap[diff.Commit.ID]\<close> whatever \<^verbatim>\<open>branch\<close> is; the write is under
  \<^verbatim>\<open>diffInfo.Branch\<close> when \<^verbatim>\<open>branch\<close> is set.
\<close>

definition diffMap_insert ::
  "(addr \<Rightarrow> DiffInfo) \<Rightarrow> diffMap \<Rightarrow> addr \<Rightarrow> bool \<Rightarrow> error + diffMap" where
  "diffMap_insert h d p branch =
    (let diffInfo = h p; diff = Diff diffInfo in
     case d (RepoName (Commit diff)) of
       None \<Rightarrow> Inl (RepoNotFound (RepoName (Commit diff)))
     | Some shardMap \<Rightarrow>
        (let commitMap = (case shardMap (Shard diff) of None \<Rightarrow> Map.empty | Some cm \<Rightarrow> cm) in
         if commitMap (ID (Commit diff)) \<noteq> None
         then Inl (CommitExists (RepoName (Commit diff)) (ID (Commit diff)))
         else Inr (d(RepoName (Commit diff) \<mapsto>
                shardMap(Shard diff \<mapsto>
                  commitMap((if branch then Branch diffInfo else ID (Commit diff)) \<mapsto> p))))))"

definition diffMap_pop :: "diffMap \<Rightarrow> Diff \<Rightarrow> addr option \<times> diffMap" where
  "diffMap_pop d diff =
    (case d (RepoName (Commit diff)) of
       None \<Rightarrow> (None, d)
     | Some shardMap \<Rightarrow>
        (case shardMap (Shard diff) of
           None \<Rightarrow> (None, d)
         | Some commitMap \<Rightarrow>
            (commitMap (ID (Commit diff)),
             d(RepoName (Commit diff) \<mapsto>
               shardMap(Shard diff \<mapsto> commitMap(ID (Commit diff) := None))))))"

section \<open>The driver\<close>

text \<open>
  The four indexes and the store of the DiffInfo objects they point to. An object
  reached from several indexes is one object: a write through one index is seen
  through the others. \<open>nextAddr\<close> is the next unused address. The lock is not
  part of the state: each operation is modelled as it runs alone.
\<close>

record driver =
  heap :: "addr \<Rightarrow> DiffInfo"
  nextAddr :: addr
  started :: diffMap
  finished :: diffMap
  leaves :: diffMap
  branches :: diffMap

definition zeroDiffInfo :: DiffInfo where
  "zeroDiffInfo =
    \<lparr>Diff = \<lparr>Commit = NewCommit [] [], Shard = 0\<rparr>, ParentCommit = None, Appends = None,
     SizeBytes = 0, Started = None, Finished = None, Branch = []\<rparr>"

definition newDriver :: driver where
  "newDriver =
    \<lparr>heap = (\<lambda>_. zeroDiffInfo), nextAddr = 0, started = Map.empty, finished = Map.empty,
     leaves = Map.empty, branches = Map.empty\<rparr>"

definition alloc :: "driver \<Rightarrow> DiffInfo \<Rightarrow> addr \<times> driver" where
  "alloc d v = (nextAddr d, d\<lparr>heap := (heap d)(nextAddr d := v), nextAddr := Suc (nextAddr d)\<rparr>)"

definition createRepoDiffMaps :: "driver \<Rightarrow> string \<Rightarrow> driver" where
  "createRepoDiffMaps d repoName =
    d\<lparr>finished := (finished d)(repoName \<mapsto> Map.empty),
      started := (started d)(repoName \<mapsto> Map.empty),
      leaves := (leaves d)(repoName \<mapsto> Map.empty),
      branches := (branches d)(repoName \<mapsto> Map.empty)\<rparr>"

definition canonicalCommit :: "driver \<Rightarrow> Commit \<Rightarrow> shard \<Rightarrow> Commit" where
  "canonicalCommit d commit shard =
    (case diffMap_get (branches d) \<lparr>Commit = commit, Shard = shard\<rparr> of
       Some p \<Rightarrow> Commit (Diff (heap d p))
     | None \<Rightarrow> commit)"

definition insertLeaf :: "driver \<Rightarrow> addr \<Rightarrow> error option \<times> driver" where
  "insertLeaf d leaf =
    (case diffMap_insert (heap d) (leaves d) leaf False of
       Inl err \<Rightarrow> (Some err, d)
     | Inr leaves' \<Rightarrow>
        (let d1 = d\<lparr>leaves := leaves'\<rparr> in
         case ParentCommit (heap d leaf) of
           None \<Rightarrow> (None, d1)
         | Some parent \<Rightarrow>
            (let parentDiff = \<lparr>Commit = parent, Shard = Shard (Diff (heap d leaf))\<rparr> in
             case diffMap_get (leaves d1) parentDiff of
               Some _ \<Rightarrow> (None, d1\<lparr>leaves := snd (diffMap_pop (leaves d1) parentDiff)\<rparr>)
             | None \<Rightarrow> (None, d1))))"

section \<open>Commit operations\<close>

text \<open>
  Go ranges over \<^verbatim>\<open>shards map[uint64]bool\<close> in an unspecified order: \<open>shards\<close> is the
  list of its keys in the order one run visits them. An operation returns its error
  (\<open>None\<close> for nil) together with the driver as it has left it, since nothing is
  rolled back. The block store is a collaborator: \<open>bc\<close> is what
  \<^verbatim>\<open>getBlockClient\<close> returns as error, \<open>rpcErr\<close> is the error the fan-out of
  calls leaves in \<^verbatim>\<open>loopErr\<close>, and the DiffInfos sent with \<^verbatim>\<open>CreateDiff\<close> are returned
  as a list.
\<close>

fun CreateRepo_loop ::
  "driver \<Rightarrow> string \<Rightarrow> Timestamp option \<Rightarrow> shard list \<Rightarrow> DiffInfo list \<Rightarrow>
   error option \<times> driver \<times> DiffInfo list" where
  "CreateRepo_loop d repoName created [] sent = (None, d, sent)"
| "CreateRepo_loop d repoName created (shard # shards) sent =
    (let diffInfo = zeroDiffInfo\<lparr>Diff := \<lparr>Commit = NewCommit repoName [], Shard = shard\<rparr>,
                                 Finished := created\<rparr>;
         (p, d1) = alloc d diffInfo in
     case diffMap_insert (heap d1) (finished d1) p False of
       Inl err \<Rightarrow> (Some err, d1, sent)
     | Inr finished' \<Rightarrow>
         CreateRepo_loop (d1\<lparr>finished := finished'\<rparr>) repoName created shards (sent @ [diffInfo]))"

definition CreateRepo ::
  "driver \<Rightarrow> error option \<Rightarrow> error option \<Rightarrow> string \<Rightarrow> Timestamp option \<Rightarrow> shard list \<Rightarrow>
   error option \<times> driver \<times> DiffInfo list" where
  "CreateRepo d bc rpcErr repoName created shards =
    (if finished d repoName \<noteq> None then (Some (RepoExists repoName), d, [])
     else
       (let d1 = createRepoDiffMaps d repoName in
        case bc of
          Some err \<Rightarrow> (Some err, d1, [])
        | None \<Rightarrow>
           (case CreateRepo_loop d1 repoName created shards [] of
              (Some err, d2, sent) \<Rightarrow> (Some err, d2, sent)
            | (None, d2, sent) \<Rightarrow> (rpcErr, d2, sent))))"

text \<open>
  \<^verbatim>\<open>DeleteRepo\<close>: the \<^verbatim>\<open>DeleteDiff\<close> calls for the started diffs show in the model
  only through the error they leave.
\<close>

definition DeleteRepo ::
  "driver \<Rightarrow> error option \<Rightarrow> error option \<Rightarrow> string \<Rightarrow> shard list \<Rightarrow> error option \<times> driver" where
  "DeleteRepo d bc rpcErr repoName shards =
    (let d1 = d\<lparr>started := (started d)(repoName := None),
                finished := (finished d)(repoName := None),
                leaves := (leaves d)(repoName := None)\<rparr> in
     case bc of Some err \<Rightarrow> (Some err, d1) | None \<Rightarrow> (rpcErr, d1))"

text \<open>
  \<^verbatim>\<open>StartCommit\<close>, the part of the loop body under \<^verbatim>\<open>if branch != ""\<close>: the parent the
  branch tip gives (if any) and the branches index after the prior entry is popped.
\<close>

definition StartCommit_branchTip ::
  "driver \<Rightarrow> string \<Rightarrow> string \<Rightarrow> string \<Rightarrow> shard \<Rightarrow> error + (Commit option \<times> diffMap)" where
  "StartCommit_branchTip d repoName parentID branch shard =
    (if branch \<noteq> [] then
       (let branchDiff = \<lparr>Commit = NewCommit repoName branch, Shard = shard\<rparr> in
        case diffMap_get (branches d) branchDiff of
          Some pp \<Rightarrow>
            (let parentDiffInfo = heap d pp in
             if parentID \<noteq> [] \<and> ID (Commit (Diff parentDiffInfo)) \<noteq> parentID
             then Inl (BranchExistsAs branch (ID (Commit (Diff parentDiffInfo))) parentID)
             else if diffMap_get (finished d) (Diff parentDiffInfo) = None
             then Inl (BranchUnfinished branch (ID (Commit (Diff parentDiffInfo))))
             else Inr (Some (NewCommit repoName (ID (Commit (Diff parentDiffInfo)))),
                       snd (diffMap_pop (branches d) branchDiff)))
        | None \<Rightarrow> Inr (None, branches d))
     else Inr (None, branches d))"

text \<open>
  One turn of the loop of \<^verbatim>\<open>StartCommit\<close>. The new DiffInfo is entered in the store
  once its parent is known (the source allocates it first and sets the parent field
  before any index holds it).
\<close>

definition StartCommit_shard ::
  "driver \<Rightarrow> string \<Rightarrow> string \<Rightarrow> string \<Rightarrow> string \<Rightarrow> Timestamp option \<Rightarrow> shard \<Rightarrow>
   error option \<times> driver" where
  "StartCommit_shard d repoName commitID parentID branch startedTs shard =
    (case StartCommit_branchTip d repoName parentID branch shard of
       Inl err \<Rightarrow> (Some err, d)
     | Inr (tipParent, branches1) \<Rightarrow>
        (let parent = (case tipParent of
                         Some c \<Rightarrow> Some c
                       | None \<Rightarrow> if parentID \<noteq> [] then Some (NewCommit repoName parentID) else None);
             diffInfo = \<lparr>Diff = \<lparr>Commit = NewCommit repoName commitID, Shard = shard\<rparr>,
                         ParentCommit = parent, Appends = Some Map.empty, SizeBytes = 0,
                         Started = startedTs, Finished = None, Branch = branch\<rparr>;
             (p, d1) = alloc (d\<lparr>branches := branches1\<rparr>) diffInfo in
         case (if branch \<noteq> [] then diffMap_insert (heap d1) (branches d1) p True
               else Inr (branches d1)) of
           Inl err \<Rightarrow> (Some err, d1)
         | Inr branches2 \<Rightarrow>
            (let d2 = d1\<lparr>branches := branches2\<rparr> in
             case diffMap_insert (heap d2) (started d2) p False of
               Inl err \<Rightarrow> (Some err, d2)
             | Inr started' \<Rightarrow> insertLeaf (d2\<lparr>started := started'\<rparr>) p)))"

fun StartCommit ::
  "driver \<Rightarrow> string \<Rightarrow> string \<Rightarrow> string \<Rightarrow> string \<Rightarrow> Timestamp option \<Rightarrow> shard list \<Rightarrow>
   error option \<times> driver" where
  "StartCommit d repoName commitID parentID branch startedTs [] = (None, d)"
| "StartCommit d repoName commitID parentID branch startedTs (shard # shards) =
    (case StartCommit_shard d repoName commitID parentID branch startedTs shard of
       (Some err, d') \<Rightarrow> (Some err, d')
     | (None, d') \<Rightarrow> StartCommit d' repoName commitID parentID branch startedTs shards)"

text \<open>
  One turn of the locked loop of \<^verbatim>\<open>FinishCommit\<close>: the commit as canonicalised (the
  loop variable \<^verbatim>\<open>commit\<close> is overwritten and carried to the next shard), the error,
  the driver, and the address appended to \<^verbatim>\<open>diffInfos\<close> if any.
\<close>

definition FinishCommit_shard ::
  "driver \<Rightarrow> Commit \<Rightarrow> Timestamp option \<Rightarrow> shard \<Rightarrow> Commit \<times> error option \<times> driver \<times> addr option" where
  "FinishCommit_shard d commit finishedTs shard =
    (let commit' = canonicalCommit d commit shard in
     case diffMap_pop (started d) \<lparr>Commit = commit', Shard = shard\<rparr> of
       (None, started') \<Rightarrow>
         (commit', Some (CommitNotFound (RepoName commit') (ID commit')), d\<lparr>started := started'\<rparr>, None)
     | (Some p, started') \<Rightarrow>
         (let d1 = d\<lparr>started := started',
                     heap := (heap d)(p := (heap d p)\<lparr>Finished := finishedTs\<rparr>)\<rparr> in
          case diffMap_insert (heap d1) (finished d1) p False of
            Inl err \<Rightarrow> (commit', Some err, d1, Some p)
          | Inr finished' \<Rightarrow> (commit', None, d1\<lparr>finished := finished'\<rparr>, Some p)))"

fun FinishCommit_loop ::
  "driver \<Rightarrow> Commit \<Rightarrow> Timestamp option \<Rightarrow> shard list \<Rightarrow> addr list \<Rightarrow>
   error option \<times> driver \<times> addr list" where
  "FinishCommit_loop d commit finishedTs [] diffInfos = (None, d, diffInfos)"
| "FinishCommit_loop d commit finishedTs (shard # shards) diffInfos =
    (case FinishCommit_shard d commit finishedTs shard of
       (commit', Some err, d', popped) \<Rightarrow>
         (Some err, d', diffInfos @ (case popped of None \<Rightarrow> [] | Some p \<Rightarrow> [p]))
     | (commit', None, d', popped) \<Rightarrow>
         FinishCommit_loop d' commit' finishedTs shards
           (diffInfos @ (case popped of None \<Rightarrow> [] | Some p \<Rightarrow> [p])))"

definition FinishCommit ::
  "driver \<Rightarrow> error option \<Rightarrow> error option \<Rightarrow> Commit \<Rightarrow> Timestamp option \<Rightarrow> shard list \<Rightarrow>
   error option \<times> driver \<times> DiffInfo list" where
  "FinishCommit d bc rpcErr commit finishedTs shards =
    (case FinishCommit_loop d commit finishedTs shards [] of
       (Some err, d', diffInfos) \<Rightarrow> (Some err, d', [])
     | (None, d', diffInfos) \<Rightarrow>
        (case bc of
           Some err \<Rightarrow> (Some err, d', [])
         | None \<Rightarrow> (rpcErr, d', map (heap d') diffInfos)))"

text \<open>
  \<^verbatim>\<open>DeleteShard\<close> deletes the shard key from every repo's shard map in finished and
  in started, and nothing else.
\<close>

definition DeleteShard :: "driver \<Rightarrow> shard \<Rightarrow> error option \<times> driver" where
  "DeleteShard d shard =
    (None, d\<lparr>finished := (\<lambda>repoName. map_option (\<lambda>shardMap. shardMap(shard := None)) (finished d repoName)),
             started := (\<lambda>repoName. map_option (\<lambda>shardMap. shardMap(shard := None)) (started d repoName))\<rparr>)"

section \<open>Inspecting a commit\<close>

datatype CommitType = COMMIT_TYPE_NONE | COMMIT_TYPE_READ | COMMIT_TYPE_WRITE

record CommitInfo =
  ci_Commit :: Commit
  ci_CommitType :: CommitType
  ci_ParentCommit :: "Commit option"
  ci_Started :: "Timestamp option"
  ci_Finished :: "Timestamp option"
  ci_SizeBytes :: "64 word"
  ci_Branch :: string

text \<open>
  Modelled from the spec: \<^verbatim>\<open>pfs.ReduceCommitInfos\<close> is not among the source files.
  The spec has it reduce the per-shard CommitInfos into one per commit, combining
  sizes additively; the infos of one commit agree on the other fields, and the first
  one's are kept.
\<close>

fun ReduceCommitInfos_merge :: "CommitInfo \<Rightarrow> CommitInfo list \<Rightarrow> CommitInfo list" where
  "ReduceCommitInfos_merge commitInfo [] = [commitInfo]"
| "ReduceCommitInfos_merge commitInfo (r # rs) =
    (if ID (ci_Commit r) = ID (ci_Commit commitInfo)
     then r\<lparr>ci_SizeBytes := ci_SizeBytes r + ci_SizeBytes commitInfo\<rparr> # rs
     else r # ReduceCommitInfos_merge commitInfo rs)"

definition ReduceCommitInfos :: "CommitInfo list \<Rightarrow> CommitInfo list" where
  "ReduceCommitInfos commitInfos = foldl (\<lambda>acc commitInfo. ReduceCommitInfos_merge commitInfo acc) [] commitInfos"

fun inspectCommit_loop ::
  "driver \<Rightarrow> Commit \<Rightarrow> shard list \<Rightarrow> CommitInfo list \<Rightarrow> error + (Commit \<times> CommitInfo list)" where
  "inspectCommit_loop d commit [] commitInfos = Inr (commit, commitInfos)"
| "inspectCommit_loop d commit (shard # shards) commitInfos =
    (let commit' = canonicalCommit d commit shard;
         diff = \<lparr>Commit = commit', Shard = shard\<rparr>;
         found = (case diffMap_get (finished d) diff of
                    Some p \<Rightarrow> Some (p, COMMIT_TYPE_READ)
                  | None \<Rightarrow>
                     (case diffMap_get (started d) diff of
                        Some p \<Rightarrow> Some (p, COMMIT_TYPE_WRITE)
                      | None \<Rightarrow> None)) in
     case found of
       None \<Rightarrow> Inl (CommitNotFound (RepoName commit') (ID commit'))
     | Some (p, commitType) \<Rightarrow>
        (let diffInfo = heap d p;
             commitInfo = \<lparr>ci_Commit = commit', ci_CommitType = commitType,
                           ci_ParentCommit = ParentCommit diffInfo, ci_Started = Started diffInfo,
                           ci_Finished = Finished diffInfo, ci_SizeBytes = SizeBytes diffInfo,
                           ci_Branch = Branch diffInfo\<rparr> in
         inspectCommit_loop d commit' shards (commitInfos @ [commitInfo])))"

definition inspectCommit :: "driver \<Rightarrow> Commit \<Rightarrow> shard list \<Rightarrow> error + CommitInfo" where
  "inspectCommit d commit shards =
    (case inspectCommit_loop d commit shards [] of
       Inl err \<Rightarrow> Inl err
     | Inr (commit', commitInfos) \<Rightarrow>
        (case ReduceCommitInfos commitInfos of
           [] \<Rightarrow> Inl (CommitNotFound (RepoName commit') (ID commit'))
         | [commitInfo] \<Rightarrow> Inr commitInfo
         | _ # _ # _ \<Rightarrow> Inl MultipleCommitInfos))"

definition InspectCommit :: "driver \<Rightarrow> Commit \<Rightarrow> shard list \<Rightarrow> error + CommitInfo" where
  "InspectCommit d commit shards = inspectCommit d commit shards"

section \<open>Paths\<close>

text \<open>
  Modelled from the spec: \<^verbatim>\<open>path.Clean\<close> and \<^verbatim>\<open>path.Dir\<close> belong to Go's standard
  library, not to the source files. The spec has paths cleaned POSIX-style, with
  \<^verbatim>\<open>"."\<close> the directory root. The model follows the algorithm of the \<^verbatim>\<open>path\<close>
  package: \<open>out\<close> is the output written so far, \<open>dotdot\<close> the length below which
  a \<^verbatim>\<open>..\<close> cannot backtrack, and the last argument the input still to read.
\<close>

fun Clean_backtrack_loop :: "char \<Rightarrow> string \<Rightarrow> nat \<Rightarrow> string" where
  "Clean_backtrack_loop x [] dotdot = []"
| "Clean_backtrack_loop x (y # ys) dotdot =
    (if dotdot < length (y # ys) \<and> x \<noteq> CHR ''/'' then Clean_backtrack_loop y ys dotdot
     else y # ys)"

definition Clean_backtrack :: "string \<Rightarrow> nat \<Rightarrow> string" where
  "Clean_backtrack out dotdot = rev (Clean_backtrack_loop (last out) (rev (butlast out)) dotdot)"

function Clean_loop :: "bool \<Rightarrow> string \<Rightarrow> nat \<Rightarrow> string \<Rightarrow> string" where
  "Clean_loop rooted out dotdot [] = out"
| "Clean_loop rooted out dotdot (c # rest) =
    (if c = CHR ''/'' then Clean_loop rooted out dotdot rest
     else if c = CHR ''.'' \<and> (case rest of [] \<Rightarrow> True | c1 # _ \<Rightarrow> c1 = CHR ''/'')
     then Clean_loop rooted out dotdot rest
     else if c = CHR ''.'' \<and>
             (case rest of
                [] \<Rightarrow> False
              | c1 # rest1 \<Rightarrow> c1 = CHR ''.'' \<and> (case rest1 of [] \<Rightarrow> True | c2 # _ \<Rightarrow> c2 = CHR ''/''))
     then
       (if dotdot < length out then Clean_loop rooted (Clean_backtrack out dotdot) dotdot (tl rest)
        else if \<not> rooted then
          (let out' = (if out \<noteq> [] then out @ ''/'' else out) @ ''..'' in
           Clean_loop rooted out' (length out') (tl rest))
        else Clean_loop rooted out dotdot (tl rest))
     else
       (let out' = (if rooted \<and> length out \<noteq> 1 \<or> \<not> rooted \<and> length out \<noteq> 0
                    then out @ ''/'' else out) in
        Clean_loop rooted (out' @ takeWhile (\<lambda>x. x \<noteq> CHR ''/'') (c # rest)) dotdot
          (dropWhile (\<lambda>x. x \<noteq> CHR ''/'') (c # rest))))"
  by pat_completeness auto
termination
  by (relation "measure (\<lambda>(rooted, out, dotdot, p). length p)")
     (auto simp: less_Suc_eq_le length_dropWhile_le split: list.splits)

definition path_Clean :: "string \<Rightarrow> string" where
  "path_Clean p =
    (if p = [] then ''.''
     else
       (let rooted = (hd p = CHR ''/'');
            out = (if rooted then Clean_loop True ''/'' 1 (tl p) else Clean_loop False [] 0 p) in
        if out = [] then ''.'' else out))"

definition path_Split_dir :: "string \<Rightarrow> string" where
  "path_Split_dir p = rev (dropWhile (\<lambda>x. x \<noteq> CHR ''/'') (rev p))"

definition path_Dir :: "string \<Rightarrow> string" where
  "path_Dir p = path_Clean (path_Split_dir p)"

section \<open>File operations\<close>

record File =
  f_Commit :: Commit
  Path :: string

definition NewFile :: "string \<Rightarrow> string \<Rightarrow> string \<Rightarrow> File" where
  "NewFile repoName commitID path = \<lparr>f_Commit = NewCommit repoName commitID, Path = path\<rparr>"

definition zeroAppend :: Append where
  "zeroAppend = \<lparr>BlockRefs = [], Children = [], LastRef = None\<rparr>"

text \<open>
  A loop that may run for ever is a partial function into \<open>option\<close>: \<open>None\<close> is a
  run that does not return. One turn of the loop of \<^verbatim>\<open>addDirs\<close> records
  \<open>childPath\<close> in the Children of \<open>dirPath\<close>; the loop ends when \<open>dirPath\<close> is
  \<^verbatim>\<open>"."\<close>.
\<close>

definition addDirs_record :: "(string \<rightharpoonup> Append) \<Rightarrow> string \<Rightarrow> string \<Rightarrow> (string \<rightharpoonup> Append)" where
  "addDirs_record appends childPath dirPath =
    (let append0 = (case appends dirPath of None \<Rightarrow> zeroAppend | Some a \<Rightarrow> a) in
     appends(dirPath \<mapsto> append0\<lparr>Children := List.insert childPath (Children append0)\<rparr>))"

partial_function (option) addDirs_loop ::
  "(string \<rightharpoonup> Append) \<Rightarrow> string \<Rightarrow> string \<Rightarrow> (string \<rightharpoonup> Append) option" where
  "addDirs_loop appends childPath dirPath =
    (if dirPath = ''.'' then Some (addDirs_record appends childPath dirPath)
     else addDirs_loop (addDirs_record appends childPath dirPath) dirPath (path_Dir dirPath))"

definition addDirs :: "DiffInfo \<Rightarrow> File \<Rightarrow> (error + DiffInfo) option" where
  "addDirs diffInfo child =
    (case Appends diffInfo of
       None \<Rightarrow> Some (Inl (Panic ''assignment to entry in nil map''))
     | Some appends \<Rightarrow>
        (case addDirs_loop appends (Path child) (path_Dir (Path child)) of
           None \<Rightarrow> None
         | Some appends' \<Rightarrow> Some (Inr (diffInfo\<lparr>Appends := Some appends'\<rparr>))))"

text \<open>
  \<^verbatim>\<open>lastRef\<close> reads \<^verbatim>\<open>diffInfo.Appends\<close> of what \<^verbatim>\<open>d.finished.get\<close> returns without
  looking at \<^verbatim>\<open>ok\<close>: on a missing diff that is a nil dereference.
  \<open>lastRef_visit\<close> is one turn of its loop at a commit that is not nil: the
  value returned (left) or the commit the loop goes on with (right).
\<close>

definition hasAppend :: "DiffInfo \<Rightarrow> string \<Rightarrow> bool" where
  "hasAppend diffInfo path = (case Appends diffInfo of None \<Rightarrow> False | Some m \<Rightarrow> m path \<noteq> None)"

definition lastRef_visit ::
  "driver \<Rightarrow> string \<Rightarrow> shard \<Rightarrow> Commit \<Rightarrow> (error + Commit option) + Commit option" where
  "lastRef_visit d path shard c =
    (case diffMap_get (finished d) \<lparr>Commit = c, Shard = shard\<rparr> of
       None \<Rightarrow> Inl (Inl (Panic ''nil pointer dereference''))
     | Some p \<Rightarrow>
        if hasAppend (heap d p) (path_Clean path) then Inl (Inr (Some c))
        else Inr (ParentCommit (heap d p)))"

partial_function (option) lastRef_loop ::
  "driver \<Rightarrow> string \<Rightarrow> shard \<Rightarrow> Commit option \<Rightarrow> (error + Commit option) option" where
  "lastRef_loop d path shard commit =
    (case map_option (lastRef_visit d path shard) commit of
       None \<Rightarrow> Some (Inr None)
     | Some (Inl result) \<Rightarrow> Some result
     | Some (Inr parent) \<Rightarrow> lastRef_loop d path shard parent)"

definition lastRef :: "driver \<Rightarrow> File \<Rightarrow> shard \<Rightarrow> (error + Commit option) option" where
  "lastRef d file shard = lastRef_loop d (Path file) shard (Some (f_Commit file))"

text \<open>
  Modelled from the spec: \<^verbatim>\<open>pfs.ByteRangeSize\<close> is not among the source files; a
  byte range is \<^verbatim>\<open>[lower, upper)\<close> and its length \<^verbatim>\<open>Upper - Lower\<close>, in unsigned
  64-bit arithmetic.
\<close>

definition ByteRangeSize :: "ByteRange \<Rightarrow> 64 word" where
  "ByteRangeSize r = Upper r - Lower r"

text \<open>
  \<^verbatim>\<open>for _, blockRef := range blockRefs { size += blockRef.Range.Upper - blockRef.Range.Lower }\<close>
\<close>

definition addRanges :: "64 word \<Rightarrow> BlockRef list \<Rightarrow> 64 word" where
  "addRanges n blockRefs =
    foldl (\<lambda>acc blockRef. acc + (Upper (BRange blockRef) - Lower (BRange blockRef))) n blockRefs"

text \<open>
  \<^verbatim>\<open>PutFile\<close> under the write lock, from the call of \<^verbatim>\<open>addDirs\<close> on: \<open>p\<close> is the
  started DiffInfo, \<open>blockRefs\<close> what \<^verbatim>\<open>PutBlock\<close> returned.
\<close>

definition PutFile_write ::
  "driver \<Rightarrow> addr \<Rightarrow> File \<Rightarrow> shard \<Rightarrow> BlockRef list \<Rightarrow> (error option \<times> driver) option" where
  "PutFile_write d p file shard blockRefs =
    (case addDirs (heap d p) file of
       None \<Rightarrow> None
     | Some (Inl err) \<Rightarrow> Some (Some err, d)
     | Some (Inr diffInfo1) \<Rightarrow>
        (let d1 = d\<lparr>heap := (heap d)(p := diffInfo1)\<rparr>;
             appends = (case Appends diffInfo1 of None \<Rightarrow> Map.empty | Some m \<Rightarrow> m);
             key = path_Clean (Path file);
             found = (case appends key of
                        Some a \<Rightarrow> Some (Inr a)
                      | None \<Rightarrow>
                         (case ParentCommit diffInfo1 of
                            None \<Rightarrow> Some (Inr zeroAppend)
                          | Some parent \<Rightarrow>
                             (case lastRef d1 (NewFile (RepoName parent) (ID parent) (Path file)) shard of
                                None \<Rightarrow> None
                              | Some (Inl err) \<Rightarrow> Some (Inl err)
                              | Some (Inr ref) \<Rightarrow> Some (Inr (zeroAppend\<lparr>LastRef := ref\<rparr>))))) in
         case found of
           None \<Rightarrow> None
         | Some (Inl err) \<Rightarrow> Some (Some err, d1)
         | Some (Inr append0) \<Rightarrow>
            Some (None,
              d1\<lparr>heap := (heap d1)(p := diffInfo1
                   \<lparr>Appends := Some (appends(key \<mapsto> append0\<lparr>BlockRefs := BlockRefs append0 @ blockRefs\<rparr>)),
                    SizeBytes := addRanges (SizeBytes diffInfo1) blockRefs\<rparr>)\<rparr>)))"

text \<open>
  \<^verbatim>\<open>PutFile\<close>: \<open>put\<close> is what \<^verbatim>\<open>pfsutil.PutBlock\<close> returns for the reader.
\<close>

definition PutFile ::
  "driver \<Rightarrow> error option \<Rightarrow> error + BlockRef list \<Rightarrow> File \<Rightarrow> shard \<Rightarrow> (error option \<times> driver) option" where
  "PutFile d bc put file shard =
    (let commit = canonicalCommit d (f_Commit file) shard;
         file' = file\<lparr>f_Commit := commit\<rparr> in
     case diffMap_get (started d) \<lparr>Commit = commit, Shard = shard\<rparr> of
       None \<Rightarrow> Some (Some (CommitNotFound (RepoName commit) (ID commit)), d)
     | Some p \<Rightarrow>
        (case bc of
           Some err \<Rightarrow> Some (Some err, d)
         | None \<Rightarrow>
            (case put of
               Inl err \<Rightarrow> Some (Some err, d)
             | Inr blockRefs \<Rightarrow> PutFile_write d p file' shard blockRefs)))"

section \<open>The ancestry resolver\<close>

datatype FileType = FILE_TYPE_NONE | FILE_TYPE_REGULAR | FILE_TYPE_DIR

record FileInfo =
  fi_File :: File
  fi_FileType :: FileType
  fi_SizeBytes :: "64 word"
  fi_Children :: "File list"
  fi_CommitModified :: "Commit option"
  fi_Modified :: "Timestamp option"

definition getDiffInfo :: "driver \<Rightarrow> Diff \<Rightarrow> (addr \<times> bool) option" where
  "getDiffInfo d diff =
    (case diffMap_get (finished d) diff of
       Some p \<Rightarrow> Some (p, True)
     | None \<Rightarrow>
        (case diffMap_get (started d) diff of
           Some p \<Rightarrow> Some (p, False)
         | None \<Rightarrow> None))"

text \<open>
  \<^verbatim>\<open>pfs.FileInShard\<close> and \<^verbatim>\<open>pfs.BlockInShard\<close> are not among the source files: they
  are parameters, and so is the type of the filter shard.
\<close>

definition filterBlockRefs :: "('f \<Rightarrow> Block \<Rightarrow> bool) \<Rightarrow> 'f \<Rightarrow> BlockRef list \<Rightarrow> BlockRef list" where
  "filterBlockRefs BlockInShard filterShard blockRefs =
    filter (\<lambda>blockRef. BlockInShard filterShard (Block blockRef)) blockRefs"

text \<open>
  The children of one append: a child not yet seen is appended to
  \<^verbatim>\<open>fileInfo.Children\<close>. Go visits the children in an unspecified order; the model
  visits them in the order of the list.
\<close>

definition inspectFile_children ::
  "Commit \<Rightarrow> string list \<Rightarrow> FileInfo \<times> string list \<Rightarrow> FileInfo \<times> string list" where
  "inspectFile_children commit childPaths st =
    fold (\<lambda>child (fileInfo, children).
            (if child \<in> set children then fileInfo
             else fileInfo\<lparr>fi_Children := fi_Children fileInfo @ [NewFile (RepoName commit) (ID commit) child]\<rparr>,
             List.insert child children))
         childPaths st"

definition inspectFile_modified :: "Commit \<Rightarrow> DiffInfo \<Rightarrow> FileInfo \<Rightarrow> FileInfo" where
  "inspectFile_modified commit diffInfo fileInfo =
    (if fi_CommitModified fileInfo = None
     then fileInfo\<lparr>fi_CommitModified := Some commit, fi_Modified := Finished diffInfo\<rparr>
     else fileInfo)"

text \<open>
  One turn of the loop of \<^verbatim>\<open>inspectFile\<close> at \<open>commit\<close>: an error returned, or
  the file info, the block refs, the children seen and the commit to go on with.
\<close>

definition inspectFile_visit ::
  "('f \<Rightarrow> File \<Rightarrow> bool) \<Rightarrow> ('f \<Rightarrow> Block \<Rightarrow> bool) \<Rightarrow> driver \<Rightarrow> File \<Rightarrow> 'f \<Rightarrow> shard \<Rightarrow> Commit \<Rightarrow>
   FileInfo \<times> BlockRef list \<times> string list \<Rightarrow>
   error + (FileInfo \<times> BlockRef list \<times> string list \<times> Commit option)" where
  "inspectFile_visit FileInShard BlockInShard d file filterShard shard commit st =
    (case st of (fileInfo, blockRefs, children) \<Rightarrow>
     (case getDiffInfo d \<lparr>Commit = commit, Shard = shard\<rparr> of
        None \<Rightarrow> Inl (DiffNotFound (RepoName commit) (ID commit))
      | Some (p, _) \<Rightarrow>
         (let diffInfo = heap d p in
          case (case Appends diffInfo of None \<Rightarrow> None | Some m \<Rightarrow> m (path_Clean (Path file))) of
            None \<Rightarrow> Inr (fileInfo, blockRefs, children, ParentCommit diffInfo)
          | Some append0 \<Rightarrow>
             if BlockRefs append0 \<noteq> [] then
               (if fi_FileType fileInfo = FILE_TYPE_DIR
                then Inl (MixedDirRegular (RepoName (f_Commit file)) (ID (f_Commit file)) (Path file))
                else if fi_FileType fileInfo = FILE_TYPE_NONE \<and> \<not> FileInShard filterShard file
                then Inl ErrFileNotFound
                else
                  (let filtered = filterBlockRefs BlockInShard filterShard (BlockRefs append0) in
                   Inr (inspectFile_modified commit diffInfo
                          (fileInfo\<lparr>fi_FileType := FILE_TYPE_REGULAR,
                                    fi_SizeBytes := addRanges (fi_SizeBytes fileInfo) filtered\<rparr>),
                        filtered @ blockRefs, children, LastRef append0)))
             else if Children append0 \<noteq> [] then
               (if fi_FileType fileInfo = FILE_TYPE_REGULAR
                then Inl (MixedDirRegular (RepoName (f_Commit file)) (ID (f_Commit file)) (Path file))
                else
                  (case inspectFile_children commit (Children append0)
                          (fileInfo\<lparr>fi_FileType := FILE_TYPE_DIR\<rparr>, children) of
                     (fileInfo1, children1) \<Rightarrow>
                       Inr (inspectFile_modified commit diffInfo fileInfo1, blockRefs, children1,
                            LastRef append0)))
             else Inr (inspectFile_modified commit diffInfo fileInfo, blockRefs, children,
                       LastRef append0))))"

text \<open>
  The loop condition \<^verbatim>\<open>commit != nil && (from == nil || commit.ID != from.ID)\<close> and
  what follows the loop.
\<close>

definition inspectFile_step ::
  "('f \<Rightarrow> File \<Rightarrow> bool) \<Rightarrow> ('f \<Rightarrow> Block \<Rightarrow> bool) \<Rightarrow> driver \<Rightarrow> File \<Rightarrow> 'f \<Rightarrow> shard \<Rightarrow> Commit option \<Rightarrow>
   FileInfo \<times> BlockRef list \<times> string list \<times> Commit option \<Rightarrow>
   (error + FileInfo \<times> BlockRef list) + (FileInfo \<times> BlockRef list \<times> string list \<times> Commit option)" where
  "inspectFile_step FileInShard BlockInShard d file filterShard shard from st =
    (case st of (fileInfo, blockRefs, children, commit) \<Rightarrow>
     (case (case commit of
              None \<Rightarrow> None
            | Some c \<Rightarrow> (case from of
                           None \<Rightarrow> Some c
                         | Some f \<Rightarrow> if ID c \<noteq> ID f then Some c else None)) of
        None \<Rightarrow>
          (if fi_FileType fileInfo = FILE_TYPE_NONE then Inl (Inl ErrFileNotFound)
           else Inl (Inr (fileInfo, blockRefs)))
      | Some c \<Rightarrow>
          (case inspectFile_visit FileInShard BlockInShard d file filterShard shard c
                  (fileInfo, blockRefs, children) of
             Inl err \<Rightarrow> Inl (Inl err)
           | Inr st' \<Rightarrow> Inr st')))"

partial_function (option) inspectFile_loop ::
  "('f \<Rightarrow> File \<Rightarrow> bool) \<Rightarrow> ('f \<Rightarrow> Block \<Rightarrow> bool) \<Rightarrow> driver \<Rightarrow> File \<Rightarrow> 'f \<Rightarrow> shard \<Rightarrow> Commit option \<Rightarrow>
   FileInfo \<times> BlockRef list \<times> string list \<times> Commit option \<Rightarrow>
   (error + FileInfo \<times> BlockRef list) option" where
  "inspectFile_loop FileInShard BlockInShard d file filterShard shard from st =
    (case inspectFile_step FileInShard BlockInShard d file filterShard shard from st of
       Inl result \<Rightarrow> Some result
     | Inr st' \<Rightarrow> inspectFile_loop FileInShard BlockInShard d file filterShard shard from st')"

definition inspectFile ::
  "('f \<Rightarrow> File \<Rightarrow> bool) \<Rightarrow> ('f \<Rightarrow> Block \<Rightarrow> bool) \<Rightarrow> driver \<Rightarrow> File \<Rightarrow> 'f \<Rightarrow> shard \<Rightarrow> Commit option \<Rightarrow>
   (error + FileInfo \<times> BlockRef list) option" where
  "inspectFile FileInShard BlockInShard d file filterShard shard from =
    inspectFile_loop FileInShard BlockInShard d file filterShard shard from
      (\<lparr>fi_File = file, fi_FileType = FILE_TYPE_NONE, fi_SizeBytes = 0, fi_Children = [],
        fi_CommitModified = None, fi_Modified = None\<rparr>, [], [], Some (f_Commit file))"

definition InspectFile ::
  "('f \<Rightarrow> File \<Rightarrow> bool) \<Rightarrow> ('f \<Rightarrow> Block \<Rightarrow> bool) \<Rightarrow> driver \<Rightarrow> File \<Rightarrow> 'f \<Rightarrow> Commit option \<Rightarrow> shard \<Rightarrow>
   (error + FileInfo) option" where
  "InspectFile FileInShard BlockInShard d file filterShard from shard =
    map_option (map_sum id fst)
      (inspectFile FileInShard BlockInShard d
         (file\<lparr>f_Commit := canonicalCommit d (f_Commit file) shard\<rparr>) filterShard shard from)"

section \<open>The file reader\<close>

text \<open>
  \<^verbatim>\<open>index\<close> is a Go \<^verbatim>\<open>int\<close>, \<^verbatim>\<open>offset\<close> and \<^verbatim>\<open>size\<close> are \<^verbatim>\<open>int64\<close>: 64-bit words
  read as signed. \<open>r_reader\<close> is the open block stream, as the bytes it has still
  to deliver.
\<close>

record fileReader =
  r_blockRefs :: "BlockRef list"
  r_index :: "64 word"
  r_reader :: "8 word list option"
  r_offset :: "64 word"
  r_size :: "64 word"

definition newFileReader :: "BlockRef list \<Rightarrow> 64 word \<Rightarrow> 64 word \<Rightarrow> fileReader" where
  "newFileReader blockRefs offset size' =
    \<lparr>r_blockRefs = blockRefs, r_index = 0, r_reader = None, r_offset = offset, r_size = size'\<rparr>"

text \<open>
  \<^verbatim>\<open>GetFile\<close>: the reader for the block refs of \<^verbatim>\<open>inspectFile\<close>.
\<close>

definition GetFile ::
  "('f \<Rightarrow> File \<Rightarrow> bool) \<Rightarrow> ('f \<Rightarrow> Block \<Rightarrow> bool) \<Rightarrow> driver \<Rightarrow> error option \<Rightarrow> File \<Rightarrow> 'f \<Rightarrow>
   64 word \<Rightarrow> 64 word \<Rightarrow> Commit option \<Rightarrow> shard \<Rightarrow> (error + fileReader) option" where
  "GetFile FileInShard BlockInShard d bc file filterShard offset size' from shard =
    (let file' = file\<lparr>f_Commit := canonicalCommit d (f_Commit file) shard\<rparr> in
     case inspectFile FileInShard BlockInShard d file' filterShard shard from of
       None \<Rightarrow> None
     | Some (Inl err) \<Rightarrow> Some (Inl err)
     | Some (Inr (fileInfo, blockRefs)) \<Rightarrow>
        if fi_FileType fileInfo = FILE_TYPE_DIR
        then Some (Inl (IsDirectory (RepoName (f_Commit file')) (ID (f_Commit file')) (Path file')))
        else (case bc of
                Some err \<Rightarrow> Some (Inl err)
              | None \<Rightarrow> Some (Inr (newFileReader blockRefs offset size'))))"

text \<open>
  \<^verbatim>\<open>r.blockRefs[i]\<close> with Go's bounds check.
\<close>

definition index_BlockRef :: "BlockRef list \<Rightarrow> 64 word \<Rightarrow> BlockRef option" where
  "index_BlockRef blockRefs i =
    (if 0 \<le> sint i \<and> nat (sint i) < length blockRefs then Some (blockRefs ! nat (sint i))
     else None)"

text \<open>
  The skipping loop of \<^verbatim>\<open>Read\<close>. \<open>sz\<close> is
  \<^verbatim>\<open>int64(pfs.ByteRangeSize(blockRef.Range))\<close> of the \<^verbatim>\<open>blockRef\<close> read once before the
  loop; the loop does not read it again.
\<close>

partial_function (option) fileReader_skip ::
  "64 word \<Rightarrow> 64 word \<Rightarrow> 64 word \<Rightarrow> (64 word \<times> 64 word) option" where
  "fileReader_skip sz index offset =
    (if offset \<noteq> 0 \<and> sz <s offset then fileReader_skip sz (index + 1) (offset - sz)
     else Some (index, offset))"

text \<open>
  Modelled from the spec: \<^verbatim>\<open>pfsutil.GetBlock\<close> is not among the source files. The spec
  has \<^verbatim>\<open>GetBlock(hash, offset, size)\<close> stream bytes back: \<open>GetBlock\<close> is a parameter
  that gives the bytes of the stream (or the error of the call), and a
  \<^verbatim>\<open>Read\<close> of \<open>n\<close> bytes on the stream delivers up to \<open>n\<close> of them, and
  \<^verbatim>\<open>io.EOF\<close> once none is left.
\<close>

definition blockReader_Read :: "8 word list \<Rightarrow> nat \<Rightarrow> (8 word list \<times> error option) \<times> 8 word list" where
  "blockReader_Read remaining n =
    (if remaining = [] then (([], Some EOF), [])
     else ((take n remaining, None), drop n remaining))"

text \<open>
  \<^verbatim>\<open>Read\<close>, the part under \<^verbatim>\<open>if r.reader == nil\<close>: a result returned at once (left)
  or the open stream and the reader (right).
\<close>

definition fileReader_open ::
  "(string \<Rightarrow> 64 word \<Rightarrow> 64 word \<Rightarrow> error + 8 word list) \<Rightarrow> fileReader \<Rightarrow>
   (((8 word list \<times> error option) \<times> fileReader) + (8 word list \<times> fileReader)) option" where
  "fileReader_open GetBlock r =
    (case r_reader r of
       Some remaining \<Rightarrow> Some (Inr (remaining, r))
     | None \<Rightarrow>
        if sint (r_index r) = int (length (r_blockRefs r)) then Some (Inl (([], Some EOF), r))
        else
          (case index_BlockRef (r_blockRefs r) (r_index r) of
             None \<Rightarrow> Some (Inl (([], Some (Panic ''index out of range'')), r))
           | Some blockRef \<Rightarrow>
              (case fileReader_skip (ByteRangeSize (BRange blockRef)) (r_index r) (r_offset r) of
                 None \<Rightarrow> None
               | Some (index', offset') \<Rightarrow>
                  (let r1 = r\<lparr>r_index := index', r_offset := offset'\<rparr> in
                   case index_BlockRef (r_blockRefs r) index' of
                     None \<Rightarrow> Some (Inl (([], Some (Panic ''index out of range'')), r1))
                   | Some opened \<Rightarrow>
                      (case GetBlock (Hash (Block opened)) offset' (r_size r1) of
                         Inl err \<Rightarrow> Some (Inl (([], Some err), r1))
                       | Inr bytes \<Rightarrow>
                          Some (Inr (bytes, r1\<lparr>r_offset := 0, r_index := index' + 1\<rparr>)))))))"

definition fileReader_Read ::
  "(string \<Rightarrow> 64 word \<Rightarrow> 64 word \<Rightarrow> error + 8 word list) \<Rightarrow> fileReader \<Rightarrow> nat \<Rightarrow>
   ((8 word list \<times> error option) \<times> fileReader) option" where
  "fileReader_Read GetBlock r n =
    (case fileReader_open GetBlock r of
       None \<Rightarrow> None
     | Some (Inl result) \<Rightarrow> Some result
     | Some (Inr (remaining, r1)) \<Rightarrow>
        (case blockReader_Read remaining n of
           ((data, err), remaining') \<Rightarrow>
             (let r2 = r1\<lparr>r_reader := (if err = Some EOF then None else Some remaining'),
                          r_size := r_size r1 - of_nat (length data)\<rparr> in
              Some ((data, if r_size r2 = 0 then Some EOF else None), r2))))"

section \<open>Shard lifecycle\<close>

text \<open>
  The body of the closure in the receiving loop of \<^verbatim>\<open>AddShard\<close>: \<open>lv\<close> is the
  local \<^verbatim>\<open>leaves\<close> of the call, \<open>diffInfo\<close> the message received, which becomes a
  new object of the store.
\<close>

definition AddShard_parent :: "driver \<Rightarrow> diffMap \<Rightarrow> shard \<Rightarrow> Commit option \<Rightarrow> error option \<times> driver \<times> diffMap" where
  "AddShard_parent d lv shard parentCommit =
    (case parentCommit of
       None \<Rightarrow> (None, d, lv)
     | Some parent \<Rightarrow>
        (let parentDiff = \<lparr>Commit = parent, Shard = shard\<rparr> in
         case diffMap_pop lv parentDiff of
           (Some parentDiffInfo, lv') \<Rightarrow> (None, d, lv')
         | (None, lv') \<Rightarrow>
            (case alloc d (zeroDiffInfo\<lparr>Diff := parentDiff\<rparr>) of
               (q, d') \<Rightarrow>
                 (case diffMap_insert (heap d') lv' q False of
                    Inl err \<Rightarrow> (Some err, d', lv')
                  | Inr lv'' \<Rightarrow> (None, d', lv'')))))"

definition AddShard_recv :: "driver \<Rightarrow> diffMap \<Rightarrow> shard \<Rightarrow> DiffInfo \<Rightarrow> error option \<times> driver \<times> diffMap" where
  "AddShard_recv d lv shard diffInfo =
    (case alloc d diffInfo of
       (p, d0) \<Rightarrow>
        (let repoName = RepoName (Commit (Diff diffInfo));
             d1 = (if finished d0 repoName = None then createRepoDiffMaps d0 repoName else d0) in
         case diffMap_insert (heap d1) (finished d1) p False of
           Inl err \<Rightarrow> (Some err, d1, lv)
         | Inr finished' \<Rightarrow>
            (case AddShard_parent (d1\<lparr>finished := finished'\<rparr>) lv shard (ParentCommit diffInfo) of
               (Some err, d2, lv1) \<Rightarrow> (Some err, d2, lv1)
             | (None, d2, lv1) \<Rightarrow>
                (case diffMap_pop lv1 (Diff diffInfo) of
                   (Some dummyDiffInfo, lv2) \<Rightarrow> (None, d2, lv2)
                 | (None, lv2) \<Rightarrow>
                    (case diffMap_insert (heap d2) lv2 p False of
                       Inl err \<Rightarrow> (Some err, d2, lv2)
                     | Inr lv3 \<Rightarrow> (None, d2, lv3))))))"

text \<open>
  The receiving loop: an item of the stream is an error of \<^verbatim>\<open>Recv\<close> or a DiffInfo;
  the end of the list is \<^verbatim>\<open>io.EOF\<close>.
\<close>

fun AddShard_stream ::
  "driver \<Rightarrow> diffMap \<Rightarrow> shard \<Rightarrow> (error + DiffInfo) list \<Rightarrow> error option \<times> driver \<times> diffMap" where
  "AddShard_stream d lv shard [] = (None, d, lv)"
| "AddShard_stream d lv shard (Inl err # items) = (Some err, d, lv)"
| "AddShard_stream d lv shard (Inr diffInfo # items) =
    (case AddShard_recv d lv shard diffInfo of
       (Some err, d', lv') \<Rightarrow> (Some err, d', lv')
     | (None, d', lv') \<Rightarrow> AddShard_stream d' lv' shard items)"

text \<open>
  The last loop of \<^verbatim>\<open>AddShard\<close> ranges over the local leaves; \<open>keys\<close> is the
  sequence of their keys in the order the run visits them.
\<close>

fun AddShard_leaves :: "driver \<Rightarrow> diffMap \<Rightarrow> Diff list \<Rightarrow> error option \<times> driver" where
  "AddShard_leaves d lv [] = (None, d)"
| "AddShard_leaves d lv (k # keys) =
    (case diffMap_get lv k of
       None \<Rightarrow> AddShard_leaves d lv keys
     | Some p \<Rightarrow>
        if Appends (heap d p) = None
        then (Some (DanglingParent (RepoName (Commit k)) (ID (Commit k))), d)
        else
          (case diffMap_insert (heap d) (leaves d) p False of
             Inl err \<Rightarrow> (Some err, d)
           | Inr leaves' \<Rightarrow> AddShard_leaves (d\<lparr>leaves := leaves'\<rparr>) lv keys))"

text \<open>
  \<^verbatim>\<open>AddShard\<close>: \<open>listErr\<close> is the error of the \<^verbatim>\<open>ListDiff\<close> call, \<open>items\<close> what
  the stream delivers.
\<close>

definition AddShard ::
  "driver \<Rightarrow> error option \<Rightarrow> error option \<Rightarrow> shard \<Rightarrow> (error + DiffInfo) list \<Rightarrow> Diff list \<Rightarrow>
   error option \<times> driver" where
  "AddShard d bc listErr shard items keys =
    (case bc of
       Some err \<Rightarrow> (Some err, d)
     | None \<Rightarrow>
        (case listErr of
           Some err \<Rightarrow> (Some err, d)
         | None \<Rightarrow>
            (case AddShard_stream d Map.empty shard items of
               (Some err, d', lv) \<Rightarrow> (Some err, d')
             | (None, d', lv) \<Rightarrow> AddShard_leaves d' lv keys)))"

section \<open>Predicates used by the properties\<close>

text \<open>
  A path is relative when it does not begin with a slash.
\<close>

definition relp :: "string \<Rightarrow> bool" where
  "relp out = (out = [] \<or> hd out \<noteq> CHR ''/'')"

definition slack :: "string \<Rightarrow> string \<Rightarrow> nat" where
  "slack out rest = (if out \<noteq> [] \<and> rest \<noteq> [] \<and> hd rest \<noteq> CHR ''/'' then 1 else 0)"

text \<open>
  \<open>keeps a b\<close>: every child recorded in \<open>a\<close> is still recorded, under the same
  directory, in \<open>b\<close>. \<open>chain_recorded childPath dirPath r\<close>: walking up from
  \<open>dirPath\<close> with \<^verbatim>\<open>path.Dir\<close>, every directory met up to and including the first
  \<^verbatim>\<open>"."\<close> has the path walked just before it among its children in \<open>r\<close>.
\<close>

definition keeps :: "(string \<rightharpoonup> Append) \<Rightarrow> (string \<rightharpoonup> Append) \<Rightarrow> bool" where
  "keeps a b = (\<forall>k x c. a k = Some x \<longrightarrow> c \<in> set (Children x) \<longrightarrow>
      (\<exists>y. b k = Some y \<and> c \<in> set (Children y)))"

definition chain_recorded :: "string \<Rightarrow> string \<Rightarrow> (string \<rightharpoonup> Append) \<Rightarrow> bool" where
  "chain_recorded childPath dirPath r =
    (\<forall>i. (\<forall>j<i. (path_Dir ^^ j) dirPath \<noteq> ''.'') \<longrightarrow>
       (\<exists>y. r ((path_Dir ^^ i) dirPath) = Some y \<and>
            (if i = 0 then childPath else (path_Dir ^^ (i - 1)) dirPath) \<in> set (Children y)))"

text \<open>
  \<open>visits d path shard from commit xs\<close>: the resolver, started at \<open>commit\<close>, visits
  the commits of \<open>xs\<close> that carry an append for \<open>path\<close>, newest first, following
  \<^verbatim>\<open>LastRef\<close> from a commit that has one and \<^verbatim>\<open>ParentCommit\<close> from one that has
  none, and stops at \<open>nil\<close> or at \<open>from\<close>.
\<close>

inductive visits ::
  "driver \<Rightarrow> string \<Rightarrow> shard \<Rightarrow> Commit option \<Rightarrow> Commit option \<Rightarrow> (Commit \<times> Append) list \<Rightarrow> bool"
  for d :: driver and path :: string and shard :: shard and "from" :: "Commit option" where
  visits_end: "visits d path shard from None []"
| visits_from: "from = Some f \<Longrightarrow> ID c = ID f \<Longrightarrow> visits d path shard from (Some c) []"
| visits_append:
    "(case from of None \<Rightarrow> True | Some f \<Rightarrow> ID c \<noteq> ID f) \<Longrightarrow>
     getDiffInfo d \<lparr>Commit = c, Shard = shard\<rparr> = Some (p, rd) \<Longrightarrow>
     Appends (heap d p) = Some m \<Longrightarrow> m path = Some a \<Longrightarrow>
     visits d path shard from (LastRef a) xs \<Longrightarrow>
     visits d path shard from (Some c) ((c, a) # xs)"
| visits_skip:
    "(case from of None \<Rightarrow> True | Some f \<Rightarrow> ID c \<noteq> ID f) \<Longrightarrow>
     getDiffInfo d \<lparr>Commit = c, Shard = shard\<rparr> = Some (p, rd) \<Longrightarrow>
     (case Appends (heap d p) of None \<Rightarrow> None | Some m \<Rightarrow> m path) = None \<Longrightarrow>
     visits d path shard from (ParentCommit (heap d p)) xs \<Longrightarrow>
     visits d path shard from (Some c) xs"

text \<open>The block refs one visited commit contributes: those of its append that pass the filter.\<close>

definition flt :: "('f \<Rightarrow> Block \<Rightarrow> bool) \<Rightarrow> 'f \<Rightarrow> (Commit \<times> Append) \<Rightarrow> BlockRef list" where
  "flt BIS fs x = filterBlockRefs BIS fs (BlockRefs (snd x))"

definition inspectFile_inv ::
  "('f \<Rightarrow> Block \<Rightarrow> bool) \<Rightarrow> driver \<Rightarrow> File \<Rightarrow> 'f \<Rightarrow> shard \<Rightarrow> Commit option \<Rightarrow>
   FileInfo \<times> BlockRef list \<times> string list \<times> Commit option \<Rightarrow> error + FileInfo \<times> BlockRef list \<Rightarrow> bool" where
  "inspectFile_inv BIS d fl fs shard frm st y =
    (\<forall>fi refs ch commit fi' refs'. st = (fi, refs, ch, commit) \<longrightarrow> y = Inr (fi', refs') \<longrightarrow>
     (\<exists>xs. visits d (path_Clean (Path fl)) shard frm commit xs \<and>
           refs' = concat (map (flt BIS fs) (rev xs)) @ refs \<and>
           fi_SizeBytes fi' + addRanges 0 refs = fi_SizeBytes fi + addRanges 0 refs'))"

section \<open>Worked scenarios\<close>

text \<open>
  The states of the scenarios: a repo \<^verbatim>\<open>r\<close> on shards 0 and 1, a commit \<^verbatim>\<open>c1\<close> that
  writes five bytes to the file \<^verbatim>\<open>a\<close>, an empty commit \<^verbatim>\<open>c2\<close> on top of it and a
  commit \<^verbatim>\<open>c3\<close> on top of that which writes one more byte.
\<close>

definition ts :: "int \<Rightarrow> Timestamp option" where
  "ts n = Some \<lparr>Seconds = n, Nanos = 0\<rparr>"

definition ref1 :: BlockRef where
  "ref1 = \<lparr>Block = \<lparr>Hash = ''h1''\<rparr>, BRange = \<lparr>Lower = 0, Upper = 5\<rparr>\<rparr>"

definition ref3 :: BlockRef where
  "ref3 = \<lparr>Block = \<lparr>Hash = ''h3''\<rparr>, BRange = \<lparr>Lower = 0, Upper = 1\<rparr>\<rparr>"

definition afterPut :: "driver \<Rightarrow> (error option \<times> driver) option \<Rightarrow> driver" where
  "afterPut d r = (case r of None \<Rightarrow> d | Some (err, d') \<Rightarrow> d')"

definition S1 :: driver where
  "S1 = fst (snd (CreateRepo newDriver None None ''r'' (ts 0) [0, 1]))"

definition S2_started :: driver where
  "S2_started = snd (StartCommit S1 ''r'' ''c1'' [] [] (ts 1) [0, 1])"

definition S2_put :: driver where
  "S2_put = afterPut S2_started (PutFile S2_started None (Inr [ref1]) (NewFile ''r'' ''c1'' ''a'') 0)"

definition S2 :: driver where
  "S2 = fst (snd (FinishCommit S2_put None None (NewCommit ''r'' ''c1'') (ts 2) [0, 1]))"

definition S3_c2 :: driver where
  "S3_c2 = fst (snd (FinishCommit (snd (StartCommit S2 ''r'' ''c2'' ''c1'' [] (ts 3) [0, 1])) None None
                   (NewCommit ''r'' ''c2'') (ts 4) [0, 1]))"

definition S3_started :: driver where
  "S3_started = snd (StartCommit S3_c2 ''r'' ''c3'' ''c2'' [] (ts 5) [0, 1])"

definition S3_put :: driver where
  "S3_put = afterPut S3_started (PutFile S3_started None (Inr [ref3]) (NewFile ''r'' ''c3'' ''a'') 0)"

definition S3 :: driver where
  "S3 = fst (snd (FinishCommit S3_put None None (NewCommit ''r'' ''c3'') (ts 6) [0, 1]))"

text \<open>
  A replay of the block store: the DiffInfos sent with \<^verbatim>\<open>CreateDiff\<close> that belong to one
  shard, as the stream of \<^verbatim>\<open>ListDiff\<close> delivers them. \<open>S2_sent\<close> is what the operations
  leading to \<open>S2\<close> have sent.
\<close>

definition replay :: "shard \<Rightarrow> DiffInfo list \<Rightarrow> (error + DiffInfo) list" where
  "replay shard sent = map Inr (filter (\<lambda>diffInfo. Shard (Diff diffInfo) = shard) sent)"

definition S2_sent :: "DiffInfo list" where
  "S2_sent = snd (snd (CreateRepo newDriver None None ''r'' (ts 0) [0, 1])) @
             snd (snd (FinishCommit S2_put None None (NewCommit ''r'' ''c1'') (ts 2) [0, 1]))"

text \<open>
  A branches index of repo \<^verbatim>\<open>r\<close>, shard 0, that binds \<^verbatim>\<open>main\<close> to the diff of commit
  \<^verbatim>\<open>c1\<close>, and two diffs to insert under their branch names: one of a commit called
  \<^verbatim>\<open>main\<close> on the branch \<^verbatim>\<open>dev\<close>, one of commit \<^verbatim>\<open>c2\<close> on the branch \<^verbatim>\<open>main\<close>.
\<close>

definition tipMain :: DiffInfo where
  "tipMain = zeroDiffInfo\<lparr>Diff := \<lparr>Commit = NewCommit ''r'' ''c1'', Shard = 0\<rparr>, Appends := Some Map.empty,
      Branch := ''main''\<rparr>"

definition newDev :: DiffInfo where
  "newDev = zeroDiffInfo\<lparr>Diff := \<lparr>Commit = NewCommit ''r'' ''main'', Shard = 0\<rparr>, Appends := Some Map.empty,
      Branch := ''dev''\<rparr>"

definition newMain :: DiffInfo where
  "newMain = zeroDiffInfo\<lparr>Diff := \<lparr>Commit = NewCommit ''r'' ''c2'', Shard = 0\<rparr>, Appends := Some Map.empty,
      Branch := ''main''\<rparr>"

definition insertHeap :: "addr \<Rightarrow> DiffInfo" where
  "insertHeap = (\<lambda>_. zeroDiffInfo)(0 := tipMain, 1 := newDev, 2 := newMain)"

definition branchIndex :: diffMap where
  "branchIndex = [''r'' \<mapsto> [0 \<mapsto> [''main'' \<mapsto> 0]]]"

text \<open>
  A repo \<^verbatim>\<open>r\<close> on shard 0 with two branches, each with one finished commit: \<^verbatim>\<open>c0\<close> on
  \<^verbatim>\<open>dev\<close> and \<^verbatim>\<open>c1\<close> on \<^verbatim>\<open>main\<close>.
\<close>

definition B0 :: driver where
  "B0 = fst (snd (CreateRepo newDriver None None ''r'' (ts 0) [0]))"

definition B1 :: driver where
  "B1 = fst (snd (FinishCommit (snd (StartCommit B0 ''r'' ''c0'' [] ''dev'' (ts 1) [0])) None None
                   (NewCommit ''r'' ''c0'') (ts 2) [0]))"

definition B2 :: driver where
  "B2 = fst (snd (FinishCommit (snd (StartCommit B1 ''r'' ''c1'' [] ''main'' (ts 3) [0])) None None
                   (NewCommit ''r'' ''c1'') (ts 4) [0]))"

text \<open>A file of two blocks, of 2 and of 10 bytes.\<close>

definition twoBlocks :: "BlockRef list" where
  "twoBlocks = [\<lparr>Block = \<lparr>Hash = ''h1''\<rparr>, BRange = \<lparr>Lower = 0, Upper = 2\<rparr>\<rparr>,
                \<lparr>Block = \<lparr>Hash = ''h2''\<rparr>, BRange = \<lparr>Lower = 0, Upper = 10\<rparr>\<rparr>]"

text \<open>
  \<open>lineage d path shard commit cs stop\<close>: \<open>cs\<close> are the commits met from \<open>commit\<close>
  along the \<^verbatim>\<open>ParentCommit\<close> links, each with a diff in finished whose appends lack
  the cleaned path, and \<open>stop\<close> is what the last link leads to.
  \<open>lastRef_outcome d path shard stop r\<close>: what \<^verbatim>\<open>lastRef\<close> yields where the walk stops,
  \<open>nil\<close> at \<open>nil\<close>, the commit itself at a commit whose finished diff has the path, and
  a nil dereference at a commit with no diff in finished.
\<close>

inductive lineage :: "driver \<Rightarrow> string \<Rightarrow> shard \<Rightarrow> Commit option \<Rightarrow> Commit list \<Rightarrow> Commit option \<Rightarrow> bool"
  for d :: driver and path :: string and shard :: shard where
  lineage_stop: "lineage d path shard commit [] commit"
| lineage_parent:
    "diffMap_get (finished d) \<lparr>Commit = c, Shard = shard\<rparr> = Some p \<Longrightarrow>
     \<not> hasAppend (heap d p) (path_Clean path) \<Longrightarrow>
     lineage d path shard (ParentCommit (heap d p)) cs stop \<Longrightarrow>
     lineage d path shard (Some c) (c # cs) stop"

definition lastRef_outcome ::
  "driver \<Rightarrow> string \<Rightarrow> shard \<Rightarrow> Commit option \<Rightarrow> (error + Commit option) \<Rightarrow> bool" where
  "lastRef_outcome d path shard stop r =
    (case stop of
       None \<Rightarrow> r = Inr None
     | Some c \<Rightarrow>
        (case diffMap_get (finished d) \<lparr>Commit = c, Shard = shard\<rparr> of
           None \<Rightarrow> r = Inl (Panic ''nil pointer dereference'')
         | Some p \<Rightarrow> hasAppend (heap d p) (path_Clean path) \<and> r = Inr (Some c)))"

text \<open>A repo \<^verbatim>\<open>r\<close> on shard 0 with one finished commit \<^verbatim>\<open>c1\<close> started with itself as parent.\<close>

definition C1_self :: driver where
  "C1_self = fst (snd (FinishCommit
      (snd (StartCommit (fst (snd (CreateRepo newDriver None None ''r'' (ts 0) [0])))
              ''r'' ''c1'' ''c1'' [] (ts 1) [0]))
      None None (NewCommit ''r'' ''c1'') (ts 2) [0]))"


section \<open>Lemmas about paths\<close>

lemma Dir_dot: "path_Dir ''.'' = ''.''"
  by (simp add: path_Dir_def path_Clean_def path_Split_dir_def)

lemma Dir_a: "path_Dir ''a'' = ''.''"
  by (simp add: path_Dir_def path_Clean_def path_Split_dir_def)

lemma Clean_a: "path_Clean ''a'' = ''a''"
  by (simp add: path_Clean_def)

lemma Clean_slash_a: "path_Clean ''/a'' = ''/a''"
  by (simp add: path_Clean_def)

lemma Dir_root: "path_Dir ''/'' = ''/''"
  by (simp add: path_Dir_def path_Clean_def path_Split_dir_def)

lemma Dir_slash_a: "path_Dir ''/a'' = ''/''"
  by (simp add: path_Dir_def path_Clean_def path_Split_dir_def)

declare Clean_loop.simps(2) [simp del]

lemma backtrack_loop_drop: "\<exists>k. Clean_backtrack_loop x ys dd = drop k ys"
proof (induction ys arbitrary: x)
  case Nil
  show ?case by simp
next
  case (Cons y ys)
  show ?case
  proof (cases "dd < length (y # ys) \<and> x \<noteq> CHR ''/''")
    case True
    from Cons.IH [of y] obtain k where "Clean_backtrack_loop y ys dd = drop k ys" by blast
    then have "Clean_backtrack_loop x (y # ys) dd = drop (Suc k) (y # ys)" using True by simp
    then show ?thesis by blast
  next
    case False
    then have "Clean_backtrack_loop x (y # ys) dd = drop 0 (y # ys)" by auto
    then show ?thesis by blast
  qed
qed

lemma backtrack_prefix:
  assumes "out \<noteq> []"
  shows "\<exists>k<length out. Clean_backtrack out dd = take k out"
proof -
  obtain k where k: "Clean_backtrack_loop (last out) (rev (butlast out)) dd = drop k (rev (butlast out))"
    using backtrack_loop_drop by blast
  have "Clean_backtrack out dd = take (length (butlast out) - k) (butlast out)"
    by (simp add: Clean_backtrack_def k rev_drop)
  moreover have "length (butlast out) - k < length out" using assms by (simp add: less_Suc_eq_le [symmetric] Suc_pred)
  moreover have "take (length (butlast out) - k) (butlast out) = take (length (butlast out) - k) out"
    using assms by (simp add: take_butlast)
  ultimately show ?thesis by auto
qed

lemma relp_take: "relp out \<Longrightarrow> relp (take k out)"
  by (cases k; cases out) (auto simp: relp_def)

lemma relp_backtrack: "relp out \<Longrightarrow> out \<noteq> [] \<Longrightarrow> relp (Clean_backtrack out dd)"
  using backtrack_prefix [of out dd] relp_take by auto

lemma len_backtrack: "out \<noteq> [] \<Longrightarrow> length (Clean_backtrack out dd) < length out"
  using backtrack_prefix [of out dd] by auto

lemma Clean_loop_step:
  obtains
    (slash) "c = CHR ''/''"
      "Clean_loop False out dd (c # rest) = Clean_loop False out dd rest"
  | (dot) "c = CHR ''.''" "rest = [] \<or> hd rest = CHR ''/''"
      "Clean_loop False out dd (c # rest) = Clean_loop False out dd rest"
  | (backtrack) rest2 where "c = CHR ''.''" "rest = CHR ''.'' # rest2" "rest2 = [] \<or> hd rest2 = CHR ''/''"
      "dd < length out"
      "Clean_loop False out dd (c # rest) = Clean_loop False (Clean_backtrack out dd) dd rest2"
  | (up) rest2 where "c = CHR ''.''" "rest = CHR ''.'' # rest2" "rest2 = [] \<or> hd rest2 = CHR ''/''"
      "\<not> dd < length out"
      "Clean_loop False out dd (c # rest) =
         Clean_loop False ((if out \<noteq> [] then out @ ''/'' else out) @ ''..'')
           (length ((if out \<noteq> [] then out @ ''/'' else out) @ ''..'')) rest2"
  | (name) nm rm where "c # rest = nm @ rm" "nm \<noteq> []" "hd nm \<noteq> CHR ''/''"
      "rm = [] \<or> hd rm = CHR ''/''" "CHR ''/'' \<notin> set nm"
      "Clean_loop False out dd (c # rest) =
         Clean_loop False ((if out \<noteq> [] then out @ ''/'' else out) @ nm) dd rm"
proof (cases "c = CHR ''/''")
  case True
  then show ?thesis using slash [OF True] by (simp add: Clean_loop.simps(2))
next
  case ns: False
  show ?thesis
  proof (cases "c = CHR ''.'' \<and> (case rest of [] \<Rightarrow> True | c1 # x \<Rightarrow> c1 = CHR ''/'')")
    case True
    then have "rest = [] \<or> hd rest = CHR ''/''" by (cases rest) auto
    then show ?thesis using dot [OF _ _ Clean_loop.simps(2) [of False out dd c rest, unfolded if_not_P [OF ns] if_P [OF True]]] True by blast
  next
    case nd: False
    show ?thesis
    proof (cases "c = CHR ''.'' \<and>
             (case rest of [] \<Rightarrow> False
              | c1 # rest1 \<Rightarrow> c1 = CHR ''.'' \<and> (case rest1 of [] \<Rightarrow> True | c2 # x \<Rightarrow> c2 = CHR ''/''))")
      case True
      then obtain rest2 where r: "rest = CHR ''.'' # rest2" "rest2 = [] \<or> hd rest2 = CHR ''/''"
        by (cases rest; cases "tl rest") auto
      show ?thesis
      proof (cases "dd < length out")
        case lt: True
        have "Clean_loop False out dd (c # rest) = Clean_loop False (Clean_backtrack out dd) dd rest2"
          using True lt r by (subst Clean_loop.simps(2)) (simp add: ns)
        then show ?thesis using backtrack True r lt by blast
      next
        case ge: False
        have "Clean_loop False out dd (c # rest) =
         Clean_loop False ((if out \<noteq> [] then out @ ''/'' else out) @ ''..'')
           (length ((if out \<noteq> [] then out @ ''/'' else out) @ ''..'')) rest2"
          using True ge r
          by (subst Clean_loop.simps(2)) (simp add: Let_def ns)
        then show ?thesis using up True r ge by blast
      qed
    next
      case nn: False
      let ?nm = "takeWhile (\<lambda>x. x \<noteq> CHR ''/'') (c # rest)"
      let ?rm = "dropWhile (\<lambda>x. x \<noteq> CHR ''/'') (c # rest)"
      have 1: "c # rest = ?nm @ ?rm" by simp
      have 2: "?nm \<noteq> []" "hd ?nm \<noteq> CHR ''/''" using ns by simp_all
      have 3: "?rm = [] \<or> hd ?rm = CHR ''/''"
        using hd_dropWhile [of "\<lambda>x. x \<noteq> CHR ''/''" "c # rest"] by blast
      have 5: "CHR ''/'' \<notin> set ?nm" using set_takeWhileD [of "CHR ''/''" "\<lambda>x. x \<noteq> CHR ''/''" "c # rest"] by blast
      have 4: "Clean_loop False out dd (c # rest) =
         Clean_loop False ((if out \<noteq> [] then out @ ''/'' else out) @ ?nm) dd ?rm"
        by (subst Clean_loop.simps(2)) (simp add: Let_def ns nd nn)
      show ?thesis using name [OF 1 2 3 5 4] .
    qed
  qed
qed

lemma Clean_loop_rel: "relp out \<Longrightarrow> relp (Clean_loop False out dd rest)"
proof (induction rest arbitrary: out dd rule: length_induct)
  case (1 rest)
  show ?case
  proof (cases rest)
    case Nil
    then show ?thesis using "1.prems" by simp
  next
    case (Cons c rest')
    show ?thesis
    proof (cases c out dd rest' rule: Clean_loop_step)
      case slash
      then show ?thesis using "1.IH" "1.prems" Cons by simp
    next
      case dot
      then show ?thesis using "1.IH" "1.prems" Cons by simp
    next
      case (backtrack rest2)
      have "out \<noteq> []" using backtrack(4) by auto
      then have "relp (Clean_backtrack out dd)" using "1.prems" by (simp add: relp_backtrack)
      then show ?thesis using "1.IH" Cons backtrack by simp
    next
      case (up rest2)
      have "relp ((if out \<noteq> [] then out @ ''/'' else out) @ ''..'')"
        using "1.prems" by (auto simp: relp_def)
      then show ?thesis using "1.IH" Cons up by simp
    next
      case (name nm rm)
      have "relp ((if out \<noteq> [] then out @ ''/'' else out) @ nm)"
        using "1.prems" name(2,3) by (auto simp: relp_def)
      moreover have "length rm < length rest"
        using name(1,2) Cons by (metis length_append length_greater_0_conv less_add_same_cancel2)
      ultimately show ?thesis using "1.IH" Cons name(6) by simp
    qed
  qed
qed

lemma Clean_loop_len:
  "length (Clean_loop False out dd rest) \<le> length out + length rest + slack out rest"
proof (induction rest arbitrary: out dd rule: length_induct)
  case (1 rest)
  show ?case
  proof (cases rest)
    case Nil
    then show ?thesis by simp
  next
    case (Cons c rest')
    show ?thesis
    proof (cases c out dd rest' rule: Clean_loop_step)
      case slash
      have "length (Clean_loop False out dd rest') \<le> length out + length rest' + slack out rest'"
        using "1.IH" Cons by simp
      moreover have "slack out rest' \<le> 1" by (simp add: slack_def)
      ultimately show ?thesis using slash Cons by simp
    next
      case dot
      have "length (Clean_loop False out dd rest') \<le> length out + length rest' + slack out rest'"
        using "1.IH" Cons by simp
      moreover have "slack out rest' = 0" using dot(2) by (auto simp: slack_def)
      ultimately show ?thesis using dot Cons by simp
    next
      case (backtrack rest2)
      have "length (Clean_loop False (Clean_backtrack out dd) dd rest2)
            \<le> length (Clean_backtrack out dd) + length rest2 + slack (Clean_backtrack out dd) rest2"
        using "1.IH" Cons backtrack by simp
      moreover have "slack (Clean_backtrack out dd) rest2 = 0" using backtrack(3) by (auto simp: slack_def)
      moreover have "length (Clean_backtrack out dd) < length out"
      proof -
        have "out \<noteq> []" using backtrack(4) by auto
        then show ?thesis by (rule len_backtrack)
      qed
      ultimately show ?thesis using backtrack Cons by simp
    next
      case (up rest2)
      let ?o = "(if out \<noteq> [] then out @ ''/'' else out) @ ''..''"
      have lr: "length rest2 < length rest" using up(2) Cons by simp
      have "length (Clean_loop False ?o (length ?o) rest2) \<le> length ?o + length rest2 + slack ?o rest2"
        using "1.IH" lr by blast
      moreover have "slack ?o rest2 = 0" using up(3) by (auto simp: slack_def)
      moreover have "length ?o + length rest2 = length out + length rest + slack out rest"
        using up Cons by (auto simp: slack_def)
      ultimately show ?thesis using up(5) Cons by simp
    next
      case (name nm rm)
      let ?o = "(if out \<noteq> [] then out @ ''/'' else out) @ nm"
      have lrm: "length rm < length rest"
        using name(1,2) Cons by (metis length_append length_greater_0_conv less_add_same_cancel2)
      have "length (Clean_loop False ?o dd rm) \<le> length ?o + length rm + slack ?o rm"
        using "1.IH" lrm by blast
      moreover have "slack ?o rm = 0" using name(4) by (auto simp: slack_def)
      moreover have "hd rest \<noteq> CHR ''/''" using name(1,2,3) Cons by (cases nm) auto
      then have "length ?o + length rm = length out + length rest + slack out rest"
        using name(1) Cons by (auto simp: slack_def dest: arg_cong [where f = length])
      ultimately show ?thesis using name(6) Cons by simp
    qed
  qed
qed

lemma Clean_loop_len_strict:
  "rest \<noteq> [] \<Longrightarrow> last rest = CHR ''/'' \<Longrightarrow>
   length (Clean_loop False out dd rest) < length out + length rest + slack out rest"
proof (induction rest arbitrary: out dd rule: length_induct)
  case (1 rest)
  obtain c rest' where Cons: "rest = c # rest'" using "1.prems" by (cases rest) auto
  show ?case
  proof (cases c out dd rest' rule: Clean_loop_step)
    case slash
    show ?thesis
    proof (cases "rest' = []")
      case True
      then show ?thesis using slash Cons by simp
    next
      case False
      then have "length (Clean_loop False out dd rest') < length out + length rest' + slack out rest'"
        using "1.IH" "1.prems" Cons by simp
      moreover have "slack out rest' \<le> 1" by (simp add: slack_def)
      ultimately show ?thesis using slash Cons by simp
    qed
  next
    case dot
    have ne: "rest' \<noteq> []" using dot "1.prems" Cons by auto
    then have "length (Clean_loop False out dd rest') < length out + length rest' + slack out rest'"
      using "1.IH" "1.prems" Cons by simp
    moreover have "slack out rest' = 0" using dot(2) by (auto simp: slack_def)
    ultimately show ?thesis using dot Cons by simp
  next
    case (backtrack rest2)
    have "length (Clean_loop False (Clean_backtrack out dd) dd rest2)
          \<le> length (Clean_backtrack out dd) + length rest2 + slack (Clean_backtrack out dd) rest2"
      by (rule Clean_loop_len)
    moreover have "slack (Clean_backtrack out dd) rest2 = 0" using backtrack(3) by (auto simp: slack_def)
    moreover have "length (Clean_backtrack out dd) < length out"
      proof -
        have "out \<noteq> []" using backtrack(4) by auto
        then show ?thesis by (rule len_backtrack)
      qed
    ultimately show ?thesis using backtrack Cons by simp
  next
    case (up rest2)
    let ?o = "(if out \<noteq> [] then out @ ''/'' else out) @ ''..''"
    have ne: "rest2 \<noteq> []" "last rest2 = CHR ''/''"
      using up(1,2) "1.prems" Cons by (auto split: if_splits)
    have lr: "length rest2 < length rest" using up(2) Cons by simp
    have "length (Clean_loop False ?o (length ?o) rest2) < length ?o + length rest2 + slack ?o rest2"
      using "1.IH" lr ne by blast
    moreover have "slack ?o rest2 = 0" using up(3) by (auto simp: slack_def)
    moreover have "length ?o + length rest2 = length out + length rest + slack out rest"
      using up Cons by (auto simp: slack_def)
    ultimately show ?thesis using up(5) Cons by simp
  next
    case (name nm rm)
    let ?o = "(if out \<noteq> [] then out @ ''/'' else out) @ nm"
    have sl: "CHR ''/'' \<notin> set nm \<or> True" by simp
    have lrm: "length rm < length rest"
      using name(1,2) Cons by (metis length_append length_greater_0_conv less_add_same_cancel2)
    have nm_def: "nm = takeWhile (\<lambda>x. x \<noteq> CHR ''/'') (c # rest') \<or> True" by simp
    have ne: "rm \<noteq> []"
    proof
      assume "rm = []"
      then have "nm = rest" using name(1) Cons by simp
      then have "last nm = CHR ''/''" using "1.prems" by simp
      then have "CHR ''/'' \<in> set nm" using name(2) last_in_set by metis
      then show False using name(5) by simp
    qed
    have "last rm = CHR ''/''" using ne name(1) "1.prems" Cons by (metis last_appendR)
    then have "length (Clean_loop False ?o dd rm) < length ?o + length rm + slack ?o rm"
      using "1.IH" lrm ne by blast
    moreover have "slack ?o rm = 0" using name(4) by (auto simp: slack_def)
    moreover have "hd rest \<noteq> CHR ''/''" using name(1,2,3) Cons by (cases nm) auto
    then have "length ?o + length rm = length out + length rest + slack out rest"
      using name(1) Cons by (auto simp: slack_def dest: arg_cong [where f = length])
    ultimately show ?thesis using name(6) Cons by simp
  qed
qed

lemma Split_dir_cases:
  "path_Split_dir p = [] \<or>
   (last (path_Split_dir p) = CHR ''/'' \<and> length (path_Split_dir p) \<le> length p \<and>
    hd (path_Split_dir p) = hd p \<and> p \<noteq> [])"
proof (cases "dropWhile (\<lambda>x. x \<noteq> CHR ''/'') (rev p) = []")
  case True
  then show ?thesis by (simp add: path_Split_dir_def)
next
  case False
  let ?q = "dropWhile (\<lambda>x. x \<noteq> CHR ''/'') (rev p)"
  have h: "hd ?q = CHR ''/''" using hd_dropWhile [OF False] by simp
  have "rev p = takeWhile (\<lambda>x. x \<noteq> CHR ''/'') (rev p) @ ?q" by simp
  then have "last (rev p) = last ?q" using False by (metis last_appendR)
  moreover have pne: "p \<noteq> []" using False by auto
  ultimately have l: "last ?q = hd p" by (simp add: last_rev)
  have "length ?q \<le> length (rev p)" by (rule length_dropWhile_le)
  then show ?thesis using False h l pne by (simp add: path_Split_dir_def last_rev hd_rev)
qed

lemma Dir_rel:
  assumes "relp p"
  shows "path_Dir p = ''.'' \<or> (relp (path_Dir p) \<and> length (path_Dir p) < length p)"
proof (cases "path_Split_dir p = []")
  case True
  then show ?thesis by (simp add: path_Dir_def path_Clean_def)
next
  case False
  let ?dir = "path_Split_dir p"
  let ?out = "Clean_loop False [] 0 ?dir"
  have d: "last ?dir = CHR ''/''" "length ?dir \<le> length p" "hd ?dir = hd p" "p \<noteq> []"
    using Split_dir_cases [of p] False by auto
  have nr: "hd ?dir \<noteq> CHR ''/''" using assms d by (simp add: relp_def)
  have c: "path_Dir p = (if ?out = [] then ''.'' else ?out)"
    using False nr by (simp add: path_Dir_def path_Clean_def Let_def)
  have r: "relp ?out" by (rule Clean_loop_rel) (simp add: relp_def)
  have "length ?out < length ([]::string) + length ?dir + slack [] ?dir"
    using False d(1) by (rule Clean_loop_len_strict)
  then have "length ?out < length p" using d(2) by (simp add: slack_def)
  then show ?thesis using c r by auto
qed

lemma rel_reaches: "relp p \<Longrightarrow> \<exists>n. (path_Dir ^^ n) p = ''.''"
proof (induction p rule: length_induct)
  case (1 p)
  from Dir_rel [OF "1.prems"] show ?case
  proof
    assume "path_Dir p = ''.''"
    then have "(path_Dir ^^ 1) p = ''.''" by simp
    then show ?thesis by blast
  next
    assume a: "relp (path_Dir p) \<and> length (path_Dir p) < length p"
    then obtain n where "(path_Dir ^^ n) (path_Dir p) = ''.''" using "1.IH" by blast
    then have "(path_Dir ^^ Suc n) p = ''.''" by (simp add: funpow_swap1)
    then show ?thesis by blast
  qed
qed

lemma rel_Dir_reaches: "relp p \<Longrightarrow> \<exists>n. (path_Dir ^^ n) (path_Dir p) = ''.''"
proof -
  assume r: "relp p"
  from Dir_rel [OF r] show ?thesis
  proof
    assume "path_Dir p = ''.''"
    then have "(path_Dir ^^ 0) (path_Dir p) = ''.''" by simp
    then show ?thesis by blast
  next
    assume "relp (path_Dir p) \<and> length (path_Dir p) < length p"
    then show ?thesis using rel_reaches by blast
  qed
qed

declare Clean_loop.simps(2) [simp]


section \<open>Lemmas about the directory walk\<close>

lemma addDirs_loop_reaches:
  assumes "addDirs_loop appends childPath dirPath = Some r"
  shows "\<exists>n. (path_Dir ^^ n) dirPath = ''.''"
proof (rule addDirs_loop.raw_induct
    [where P = "\<lambda>appends childPath dirPath r. \<exists>n. (path_Dir ^^ n) dirPath = ''.''", OF _ assms])
  fix loop :: "(string \<rightharpoonup> Append) \<Rightarrow> string \<Rightarrow> string \<Rightarrow> (string \<rightharpoonup> Append) option"
    and appends childPath dirPath r
  assume IH: "\<And>appends childPath dirPath r. loop appends childPath dirPath = Some r \<Longrightarrow>
      \<exists>n. (path_Dir ^^ n) dirPath = ''.''"
    and body: "(if dirPath = ''.'' then Some (addDirs_record appends childPath dirPath)
                else loop (addDirs_record appends childPath dirPath) dirPath (path_Dir dirPath)) = Some r"
  show "\<exists>n. (path_Dir ^^ n) dirPath = ''.''"
  proof (cases "dirPath = ''.''")
    case True
    then have "(path_Dir ^^ 0) dirPath = ''.''" by simp
    then show ?thesis by blast
  next
    case False
    then have "loop (addDirs_record appends childPath dirPath) dirPath (path_Dir dirPath) = Some r"
      using body by simp
    from IH [OF this] obtain n where "(path_Dir ^^ n) (path_Dir dirPath) = ''.''" by blast
    then have "(path_Dir ^^ Suc n) dirPath = ''.''" by (simp add: funpow_swap1)
    then show ?thesis by blast
  qed
qed

lemma addDirs_loop_returns:
  "(path_Dir ^^ n) dirPath = ''.'' \<Longrightarrow> \<exists>r. addDirs_loop appends childPath dirPath = Some r"
proof (induction n arbitrary: appends childPath dirPath)
  case 0
  then show ?case by (simp add: addDirs_loop.simps)
next
  case (Suc n)
  show ?case
  proof (cases "dirPath = ''.''")
    case True
    then show ?thesis by (simp add: addDirs_loop.simps)
  next
    case False
    have "(path_Dir ^^ n) (path_Dir dirPath) = ''.''" using Suc.prems by (simp add: funpow_swap1)
    from Suc.IH [OF this, of "addDirs_record appends childPath dirPath" dirPath]
    show ?thesis using False by (subst addDirs_loop.simps) simp
  qed
qed

lemma keeps_refl: "keeps a a" by (simp add: keeps_def)
lemma keeps_trans: "keeps a b \<Longrightarrow> keeps b c \<Longrightarrow> keeps a c"
  unfolding keeps_def by blast

lemma keeps_record: "keeps a (addDirs_record a c d)"
  by (auto simp: keeps_def addDirs_record_def Let_def)

lemma record_has: "\<exists>y. addDirs_record a c d d = Some y \<and> c \<in> set (Children y)"
  by (simp add: addDirs_record_def Let_def)

lemma addDirs_loop_recorded:
  assumes "addDirs_loop appends childPath dirPath = Some r"
  shows "keeps appends r \<and> chain_recorded childPath dirPath r"
proof (rule addDirs_loop.raw_induct
    [where P = "\<lambda>appends childPath dirPath r. keeps appends r \<and> chain_recorded childPath dirPath r", OF _ assms])
  fix loop :: "(string \<rightharpoonup> Append) \<Rightarrow> string \<Rightarrow> string \<Rightarrow> (string \<rightharpoonup> Append) option"
    and appends childPath dirPath r
  assume IH: "\<And>appends childPath dirPath r. loop appends childPath dirPath = Some r \<Longrightarrow>
      keeps appends r \<and> chain_recorded childPath dirPath r"
    and body: "(if dirPath = ''.'' then Some (addDirs_record appends childPath dirPath)
                else loop (addDirs_record appends childPath dirPath) dirPath (path_Dir dirPath)) = Some r"
  show "keeps appends r \<and> chain_recorded childPath dirPath r"
  proof (cases "dirPath = ''.''")
    case True
    then have r: "r = addDirs_record appends childPath dirPath" using body by simp
    have "chain_recorded childPath dirPath r"
      unfolding chain_recorded_def
    proof (intro allI impI)
      fix i assume a: "\<forall>j<i. (path_Dir ^^ j) dirPath \<noteq> ''.''"
      have "i = 0" using a True by (cases i) auto
      then show "\<exists>y. r ((path_Dir ^^ i) dirPath) = Some y \<and>
            (if i = 0 then childPath else (path_Dir ^^ (i - 1)) dirPath) \<in> set (Children y)"
        using record_has [of appends childPath dirPath] r by simp
    qed
    then show ?thesis using r keeps_record by simp
  next
    case False
    let ?a = "addDirs_record appends childPath dirPath"
    have "loop ?a dirPath (path_Dir dirPath) = Some r" using body False by simp
    from IH [OF this] have k: "keeps ?a r" and c: "chain_recorded dirPath (path_Dir dirPath) r" by simp_all
    have k': "keeps appends r" using keeps_record k by (rule keeps_trans)
    have "chain_recorded childPath dirPath r"
      unfolding chain_recorded_def
    proof (intro allI impI)
      fix i assume a: "\<forall>j<i. (path_Dir ^^ j) dirPath \<noteq> ''.''"
      show "\<exists>y. r ((path_Dir ^^ i) dirPath) = Some y \<and>
            (if i = 0 then childPath else (path_Dir ^^ (i - 1)) dirPath) \<in> set (Children y)"
      proof (cases i)
        case 0
        obtain y where "?a dirPath = Some y" "childPath \<in> set (Children y)"
          using record_has [of appends childPath dirPath] by blast
        then show ?thesis using k 0 unfolding keeps_def by simp
      next
        case (Suc m)
        have "\<forall>j<m. (path_Dir ^^ j) (path_Dir dirPath) \<noteq> ''.''"
        proof (intro allI impI)
          fix j assume "j < m"
          then have "Suc j < i" using Suc by simp
          then have "(path_Dir ^^ Suc j) dirPath \<noteq> ''.''" using a by blast
          then show "(path_Dir ^^ j) (path_Dir dirPath) \<noteq> ''.''" by (simp add: funpow_swap1)
        qed
        then obtain y where y: "r ((path_Dir ^^ m) (path_Dir dirPath)) = Some y"
          "(if m = 0 then dirPath else (path_Dir ^^ (m - 1)) (path_Dir dirPath)) \<in> set (Children y)"
          using c unfolding chain_recorded_def by blast
        have e1: "(path_Dir ^^ i) dirPath = (path_Dir ^^ m) (path_Dir dirPath)"
          using Suc by (simp add: funpow_swap1)
        have e2: "(path_Dir ^^ (i - 1)) dirPath = (if m = 0 then dirPath else (path_Dir ^^ (m - 1)) (path_Dir dirPath))"
        proof (cases m)
          case 0
          then show ?thesis using Suc by simp
        next
          case (Suc m')
          then show ?thesis using \<open>i = Suc m\<close> by (simp add: funpow_swap1)
        qed
        show ?thesis using y e1 e2 Suc by simp
      qed
    qed
    then show ?thesis using k' by simp
  qed
qed



lemma Dir_root_pow: "(path_Dir ^^ n) ''/'' = ''/''"
  by (induction n) (simp_all add: Dir_root)

lemma addDirs_loop_root: "addDirs_loop appends childPath ''/'' = None"
proof (cases "addDirs_loop appends childPath ''/''")
  case None
  then show ?thesis .
next
  case (Some r)
  from addDirs_loop_reaches [OF this] obtain n where "(path_Dir ^^ n) ''/'' = ''.''" by blast
  then show ?thesis using Dir_root_pow [of n] by simp
qed


section \<open>Lemmas about the resolver\<close>

lemma addRanges_append: "addRanges n (xs @ ys) = addRanges (addRanges n xs) ys"
  by (simp add: addRanges_def)

lemma addRanges_shift: "addRanges n xs = n + addRanges 0 xs"
proof (induction xs arbitrary: n)
  case Nil
  show ?case by (simp add: addRanges_def)
next
  case (Cons x xs)
  have "addRanges n (x # xs) = addRanges (n + (Upper (BRange x) - Lower (BRange x))) xs"
    by (simp add: addRanges_def)
  also have "\<dots> = n + (Upper (BRange x) - Lower (BRange x)) + addRanges 0 xs"
    by (rule Cons.IH)
  also have "addRanges 0 (x # xs) = addRanges (Upper (BRange x) - Lower (BRange x)) xs"
    by (simp add: addRanges_def)
  then have "n + (Upper (BRange x) - Lower (BRange x)) + addRanges 0 xs = n + addRanges 0 (x # xs)"
    using Cons.IH [of "Upper (BRange x) - Lower (BRange x)"] by (simp add: add.assoc)
  finally show ?case .
qed

lemma addRanges_sum: "addRanges 0 xs = sum_list (map (\<lambda>b. Upper (BRange b) - Lower (BRange b)) xs)"
proof (induction xs)
  case Nil
  show ?case by (simp add: addRanges_def)
next
  case (Cons x xs)
  have "addRanges 0 (x # xs) = addRanges (Upper (BRange x) - Lower (BRange x)) xs"
    by (simp add: addRanges_def)
  then show ?case using addRanges_shift [of "Upper (BRange x) - Lower (BRange x)" xs] Cons.IH by simp
qed

lemma inspectFile_children_size:
  "fi_SizeBytes (fst (inspectFile_children c cs (fi, ch))) = fi_SizeBytes fi"
proof -
  have "\<And>st. fi_SizeBytes (fst (inspectFile_children c cs st)) = fi_SizeBytes (fst st)"
    unfolding inspectFile_children_def
    by (induction cs) (auto split: prod.splits)
  then show ?thesis by simp
qed

lemma inspectFile_children_sizeD:
  "inspectFile_children c cs (fi, ch) = (x1, ch1) \<Longrightarrow> fi_SizeBytes x1 = fi_SizeBytes fi"
  using inspectFile_children_size [of c cs fi ch] by simp

lemma inspectFile_modified_size [simp]:
  "fi_SizeBytes (inspectFile_modified c di fi) = fi_SizeBytes fi"
  by (simp add: inspectFile_modified_def)

lemma visit_cases:
  assumes "inspectFile_visit FIS BIS d file fs shard c (fi, refs, ch) = Inr (fi1, refs1, ch1, nxt)"
  shows "\<exists>p rd. getDiffInfo d \<lparr>Commit = c, Shard = shard\<rparr> = Some (p, rd) \<and>
          (((case Appends (heap d p) of None \<Rightarrow> None | Some m \<Rightarrow> m (path_Clean (Path file))) = None \<and>
            nxt = ParentCommit (heap d p) \<and> refs1 = refs \<and> fi_SizeBytes fi1 = fi_SizeBytes fi) \<or>
           (\<exists>m a. Appends (heap d p) = Some m \<and> m (path_Clean (Path file)) = Some a \<and>
              nxt = LastRef a \<and> refs1 = filterBlockRefs BIS fs (BlockRefs a) @ refs \<and>
              fi_SizeBytes fi1 = addRanges (fi_SizeBytes fi) (filterBlockRefs BIS fs (BlockRefs a))))"
proof -
  obtain p rd where g: "getDiffInfo d \<lparr>Commit = c, Shard = shard\<rparr> = Some (p, rd)"
    using assms by (cases "getDiffInfo d \<lparr>Commit = c, Shard = shard\<rparr>") (auto simp: inspectFile_visit_def)
  show ?thesis
  proof (cases "case Appends (heap d p) of None \<Rightarrow> None | Some m \<Rightarrow> m (path_Clean (Path file))")
    case None
    then show ?thesis using assms g by (auto simp: inspectFile_visit_def Let_def)
  next
    case (Some a)
    then obtain m where m: "Appends (heap d p) = Some m" "m (path_Clean (Path file)) = Some a"
      by (auto split: option.splits)
    have e: "filterBlockRefs BIS fs [] = []" by (simp add: filterBlockRefs_def)
    have a0: "addRanges n [] = n" for n by (simp add: addRanges_def)
    show ?thesis
    proof (cases "BlockRefs a = []")
      case True
      then show ?thesis using assms g m Some
        by (auto simp: inspectFile_visit_def Let_def e a0 split: if_splits prod.splits
                 dest: inspectFile_children_sizeD)
    next
      case False
      then show ?thesis using assms g m Some
        by (auto simp: inspectFile_visit_def Let_def split: if_splits)
    qed
  qed
qed

lemma loop_inv:
  assumes "inspectFile_loop FIS BIS d fl fs shard frm st = Some y"
  shows "inspectFile_inv BIS d fl fs shard frm st y"
proof (rule inspectFile_loop.raw_induct
    [where P = "\<lambda>FIS BIS d fl fs shard frm st y. inspectFile_inv BIS d fl fs shard frm st y", OF _ assms])
  fix loop :: "('f \<Rightarrow> File \<Rightarrow> bool) \<Rightarrow> ('f \<Rightarrow> Block \<Rightarrow> bool) \<Rightarrow> driver \<Rightarrow> File \<Rightarrow> 'f \<Rightarrow> shard \<Rightarrow> Commit option \<Rightarrow>
     FileInfo \<times> BlockRef list \<times> string list \<times> Commit option \<Rightarrow> (error + FileInfo \<times> BlockRef list) option"
    and FIS BIS d fl fs shard frm st y
  assume IH: "\<And>FIS BIS d fl fs shard frm st y.
      loop FIS BIS d fl fs shard frm st = Some y \<Longrightarrow> inspectFile_inv BIS d fl fs shard frm st y"
    and body: "(case inspectFile_step FIS BIS d fl fs shard frm st of
                  Inl result \<Rightarrow> Some result
                | Inr st' \<Rightarrow> loop FIS BIS d fl fs shard frm st') = Some y"
  show "inspectFile_inv BIS d fl fs shard frm st y"
    unfolding inspectFile_inv_def
  proof (intro allI impI)
    fix fi refs ch commit fi' refs'
    assume st: "st = (fi, refs, ch, commit)" and y: "y = Inr (fi', refs')"
    show "\<exists>xs. visits d (path_Clean (Path fl)) shard frm commit xs \<and>
           refs' = concat (map (flt BIS fs) (rev xs)) @ refs \<and>
           fi_SizeBytes fi' + addRanges 0 refs = fi_SizeBytes fi + addRanges 0 refs'"
    proof (cases "inspectFile_step FIS BIS d fl fs shard frm st")
      case (Inl result)
      then have r: "result = Inr (fi', refs')" using body y by simp
      have stop: "commit = None \<or> (\<exists>c f. commit = Some c \<and> frm = Some f \<and> ID c = ID f)"
        and same: "fi' = fi" "refs' = refs"
        using Inl r st
        by (auto simp: inspectFile_step_def split: option.splits if_splits sum.splits)
      have "visits d (path_Clean (Path fl)) shard frm commit []"
        using stop by (auto intro: visits.intros)
      then show ?thesis using same by (intro exI [of _ "[]"]) simp
    next
      case (Inr st')
      obtain fi1 refs1 ch1 nxt where st': "st' = (fi1, refs1, ch1, nxt)" by (cases st') auto
      have cont: "loop FIS BIS d fl fs shard frm st' = Some y" using Inr body by simp
      obtain xs where xs: "visits d (path_Clean (Path fl)) shard frm nxt xs"
        "refs' = concat (map (flt BIS fs) (rev xs)) @ refs1"
        "fi_SizeBytes fi' + addRanges 0 refs1 = fi_SizeBytes fi1 + addRanges 0 refs'"
        using IH [OF cont] st' y unfolding inspectFile_inv_def by blast
      obtain c where c: "commit = Some c" "case frm of None \<Rightarrow> True | Some f \<Rightarrow> ID c \<noteq> ID f"
        and v: "inspectFile_visit FIS BIS d fl fs shard c (fi, refs, ch) = Inr st'"
        using Inr st
        by (auto simp: inspectFile_step_def split: option.splits if_splits sum.splits)
      from visit_cases [OF v [unfolded st']]
      obtain p rd where g: "getDiffInfo d \<lparr>Commit = c, Shard = shard\<rparr> = Some (p, rd)"
        and alt: "((case Appends (heap d p) of None \<Rightarrow> None | Some m \<Rightarrow> m (path_Clean (Path fl))) = None \<and>
            nxt = ParentCommit (heap d p) \<and> refs1 = refs \<and> fi_SizeBytes fi1 = fi_SizeBytes fi) \<or>
           (\<exists>m a. Appends (heap d p) = Some m \<and> m (path_Clean (Path fl)) = Some a \<and>
              nxt = LastRef a \<and> refs1 = filterBlockRefs BIS fs (BlockRefs a) @ refs \<and>
              fi_SizeBytes fi1 = addRanges (fi_SizeBytes fi) (filterBlockRefs BIS fs (BlockRefs a)))"
        by blast
      from alt show ?thesis
      proof
        assume a: "(case Appends (heap d p) of None \<Rightarrow> None | Some m \<Rightarrow> m (path_Clean (Path fl))) = None \<and>
            nxt = ParentCommit (heap d p) \<and> refs1 = refs \<and> fi_SizeBytes fi1 = fi_SizeBytes fi"
        have "visits d (path_Clean (Path fl)) shard frm commit xs"
          using visits_skip [OF c(2) g _ ] a xs(1) c(1) by simp
        then show ?thesis using xs a by (intro exI [of _ xs]) simp
      next
        assume "\<exists>m a. Appends (heap d p) = Some m \<and> m (path_Clean (Path fl)) = Some a \<and>
              nxt = LastRef a \<and> refs1 = filterBlockRefs BIS fs (BlockRefs a) @ refs \<and>
              fi_SizeBytes fi1 = addRanges (fi_SizeBytes fi) (filterBlockRefs BIS fs (BlockRefs a))"
        then obtain m a where a: "Appends (heap d p) = Some m" "m (path_Clean (Path fl)) = Some a"
          "nxt = LastRef a" "refs1 = filterBlockRefs BIS fs (BlockRefs a) @ refs"
          "fi_SizeBytes fi1 = addRanges (fi_SizeBytes fi) (filterBlockRefs BIS fs (BlockRefs a))"
          by blast
        have w: "visits d (path_Clean (Path fl)) shard frm commit ((c, a) # xs)"
          using visits_append [OF c(2) g a(1) a(2)] xs(1) a(3) c(1) by simp
        have r: "refs' = concat (map (flt BIS fs) (rev ((c, a) # xs))) @ refs"
          using xs(2) a(4) by (simp add: flt_def)
        have "addRanges 0 refs1 = addRanges 0 (filterBlockRefs BIS fs (BlockRefs a)) + addRanges 0 refs"
          using a(4) addRanges_append [of 0 "filterBlockRefs BIS fs (BlockRefs a)" refs]
            addRanges_shift [of "addRanges 0 (filterBlockRefs BIS fs (BlockRefs a))" refs] by simp
        moreover have "fi_SizeBytes fi1 = fi_SizeBytes fi + addRanges 0 (filterBlockRefs BIS fs (BlockRefs a))"
          using a(5) addRanges_shift [of "fi_SizeBytes fi" "filterBlockRefs BIS fs (BlockRefs a)"]
          by (simp only:)
        ultimately have s: "fi_SizeBytes fi' + addRanges 0 refs = fi_SizeBytes fi + addRanges 0 refs'"
          using xs(3) by (simp add: algebra_simps)
        show ?thesis using w r s by blast
      qed
    qed
  qed
qed

lemma inspectFile_general:
  assumes "inspectFile FIS BIS d fl fs shard frm = Some (Inr (fileInfo, blockRefs))"
  shows "\<exists>xs. visits d (path_Clean (Path fl)) shard frm (Some (f_Commit fl)) xs \<and>
           blockRefs = concat (map (flt BIS fs) (rev xs)) \<and>
           fi_SizeBytes fileInfo = sum_list (map (\<lambda>b. Upper (BRange b) - Lower (BRange b)) blockRefs)"
proof -
  let ?fi0 = "\<lparr>fi_File = fl, fi_FileType = FILE_TYPE_NONE, fi_SizeBytes = 0, fi_Children = [],
        fi_CommitModified = None, fi_Modified = None\<rparr>"
  have l: "inspectFile_loop FIS BIS d fl fs shard frm (?fi0, [], [], Some (f_Commit fl)) =
      Some (Inr (fileInfo, blockRefs))"
    using assms by (simp add: inspectFile_def)
  have "inspectFile_inv BIS d fl fs shard frm (?fi0, [], [], Some (f_Commit fl)) (Inr (fileInfo, blockRefs))"
    by (rule loop_inv [OF l])
  then obtain xs where xs: "visits d (path_Clean (Path fl)) shard frm (Some (f_Commit fl)) xs"
    "blockRefs = concat (map (flt BIS fs) (rev xs)) @ []"
    "fi_SizeBytes fileInfo + addRanges 0 [] = fi_SizeBytes ?fi0 + addRanges 0 blockRefs"
    unfolding inspectFile_inv_def by blast
  have z: "addRanges 0 [] = 0" by (simp add: addRanges_def)
  have "fi_SizeBytes fileInfo = addRanges 0 blockRefs" using xs(3) z by simp
  then have "fi_SizeBytes fileInfo = sum_list (map (\<lambda>b. Upper (BRange b) - Lower (BRange b)) blockRefs)"
    by (simp only: addRanges_sum)
  then show ?thesis using xs(1) xs(2) by (intro exI [of _ xs]) simp
qed


section \<open>Lemmas about finishing a commit\<close>








lemma step_present:
  "diffMap_get (started d) \<lparr>Commit = canonicalCommit d commit shard, Shard = shard\<rparr> = Some p \<Longrightarrow>
   FinishCommit_shard d commit fts shard = (c', err, d', popped) \<Longrightarrow>
   c' = canonicalCommit d commit shard \<and> popped = Some p \<and>
   diffMap_get (started d') \<lparr>Commit = c', Shard = shard\<rparr> = None \<and>
   heap d' = (heap d)(p := (heap d p)\<lparr>Finished := fts\<rparr>) \<and>
   (case finished d (RepoName (Commit (Diff (heap d p)))) of
      None \<Rightarrow> err = Some (RepoNotFound (RepoName (Commit (Diff (heap d p))))) \<and> finished d' = finished d
    | Some sm \<Rightarrow>
       if diffMap_get (finished d) (Diff (heap d p)) \<noteq> None
       then err = Some (CommitExists (RepoName (Commit (Diff (heap d p)))) (ID (Commit (Diff (heap d p))))) \<and> finished d' = finished d
       else err = None \<and> diffMap_get (finished d') (Diff (heap d p)) = Some p)"
  by (auto simp: FinishCommit_shard_def Let_def diffMap_pop_def diffMap_get_def diffMap_insert_def split: option.splits prod.splits sum.splits if_splits)


section \<open>Evaluating the operations on a concrete state\<close>

lemmas ev = CreateRepo_def createRepoDiffMaps_def newDriver_def alloc_def diffMap_insert_def
  zeroDiffInfo_def NewCommit_def Let_def StartCommit_shard_def StartCommit_branchTip_def insertLeaf_def
  diffMap_get_def diffMap_pop_def FinishCommit_def FinishCommit_shard_def canonicalCommit_def
  PutFile_def PutFile_write_def addDirs_def addDirs_loop.simps addDirs_record_def lastRef_def
  lastRef_loop.simps lastRef_visit_def hasAppend_def path_Dir_def path_Clean_def path_Split_dir_def
  NewFile_def zeroAppend_def addRanges_def afterPut_def ts_def ref1_def ref3_def
  inspectFile_def inspectFile_loop.simps inspectFile_step_def inspectFile_visit_def getDiffInfo_def
  filterBlockRefs_def inspectFile_modified_def


section \<open>Lemmas about the last reference\<close>

lemma lastRef_loop_lineage:
  assumes "lastRef_loop d path shard commit = Some r"
  shows "\<exists>cs stop. lineage d path shard commit cs stop \<and> lastRef_outcome d path shard stop r"
proof (rule lastRef_loop.raw_induct
    [where P = "\<lambda>d path shard commit r.
        \<exists>cs stop. lineage d path shard commit cs stop \<and> lastRef_outcome d path shard stop r", OF _ assms])
  fix loop :: "driver \<Rightarrow> string \<Rightarrow> shard \<Rightarrow> Commit option \<Rightarrow> (error + Commit option) option"
    and d path shard commit r
  assume IH: "\<And>d path shard commit r. loop d path shard commit = Some r \<Longrightarrow>
      \<exists>cs stop. lineage d path shard commit cs stop \<and> lastRef_outcome d path shard stop r"
    and body: "(case map_option (lastRef_visit d path shard) commit of
                  None \<Rightarrow> Some (Inr None)
                | Some (Inl result) \<Rightarrow> Some result
                | Some (Inr parent) \<Rightarrow> loop d path shard parent) = Some r"
  show "\<exists>cs stop. lineage d path shard commit cs stop \<and> lastRef_outcome d path shard stop r"
  proof (cases commit)
    case None
    then have "r = Inr None" using body by simp
    then have "lastRef_outcome d path shard commit r" using None by (simp add: lastRef_outcome_def)
    then show ?thesis using lineage_stop by blast
  next
    case (Some c)
    show ?thesis
    proof (cases "diffMap_get (finished d) \<lparr>Commit = c, Shard = shard\<rparr>")
      case None
      then have "r = Inl (Panic ''nil pointer dereference'')"
        using body Some by (simp add: lastRef_visit_def)
      then have "lastRef_outcome d path shard commit r" using None Some by (simp add: lastRef_outcome_def)
      then show ?thesis using lineage_stop by blast
    next
      case p: (Some p)
      show ?thesis
      proof (cases "hasAppend (heap d p) (path_Clean path)")
        case True
        then have "r = Inr (Some c)" using body Some p by (simp add: lastRef_visit_def)
        then have "lastRef_outcome d path shard commit r" using p Some True by (simp add: lastRef_outcome_def)
        then show ?thesis using lineage_stop by blast
      next
        case False
        then have "loop d path shard (ParentCommit (heap d p)) = Some r"
          using body Some p by (simp add: lastRef_visit_def)
        from IH [OF this] obtain cs stop where
          l: "lineage d path shard (ParentCommit (heap d p)) cs stop" and o: "lastRef_outcome d path shard stop r"
          by blast
        have "lineage d path shard commit (c # cs) stop"
          using lineage_parent [OF p False l] Some by simp
        then show ?thesis using o by blast
      qed
    qed
  qed
qed

lemma lineage_lastRef_loop:
  "lineage d path shard commit cs stop \<Longrightarrow>
   lastRef_loop d path shard commit = lastRef_loop d path shard stop"
proof (induction rule: lineage.induct)
  case (lineage_stop commit)
  show ?case by simp
next
  case (lineage_parent c p cs stop)
  have "lastRef_loop d path shard (Some c) = lastRef_loop d path shard (ParentCommit (heap d p))"
    using lineage_parent.hyps(1,2) by (subst lastRef_loop.simps) (simp add: lastRef_visit_def)
  then show ?case using lineage_parent.IH by simp
qed

lemma outcome_lastRef_loop:
  "lastRef_outcome d path shard stop r \<Longrightarrow> lastRef_loop d path shard stop = Some r"
  by (subst lastRef_loop.simps)
     (auto simp: lastRef_outcome_def lastRef_visit_def split: option.splits)

lemma lastRef_loop_cycle:
  assumes g: "diffMap_get (finished d) \<lparr>Commit = c, Shard = shard\<rparr> = Some p"
    and n: "\<not> hasAppend (heap d p) (path_Clean path)"
    and s: "ParentCommit (heap d p) = Some c"
  shows "lastRef_loop d path shard (Some c) = None"
proof (cases "lastRef_loop d path shard (Some c)")
  case None
  then show ?thesis .
next
  case (Some r)
  have "\<not> (d = d \<and> path = path \<and> shard = shard \<and> Some c = Some c)"
  proof (rule lastRef_loop.raw_induct
      [where P = "\<lambda>d' path' shard' commit' r. \<not> (d' = d \<and> path' = path \<and> shard' = shard \<and> commit' = Some c)",
        OF _ Some])
    fix loop :: "driver \<Rightarrow> string \<Rightarrow> shard \<Rightarrow> Commit option \<Rightarrow> (error + Commit option) option"
      and d' path' shard' commit' r
    assume IH: "\<And>d' path' shard' commit' r. loop d' path' shard' commit' = Some r \<Longrightarrow>
        \<not> (d' = d \<and> path' = path \<and> shard' = shard \<and> commit' = Some c)"
      and body: "(case map_option (lastRef_visit d' path' shard') commit' of
                  None \<Rightarrow> Some (Inr None)
                | Some (Inl result) \<Rightarrow> Some result
                | Some (Inr parent) \<Rightarrow> loop d' path' shard' parent) = Some r"
    show "\<not> (d' = d \<and> path' = path \<and> shard' = shard \<and> commit' = Some c)"
    proof
      assume e: "d' = d \<and> path' = path \<and> shard' = shard \<and> commit' = Some c"
      then have "loop d path shard (Some c) = Some r"
        using body g n s by (simp add: lastRef_visit_def)
      from IH [OF this] show False by simp
    qed
  qed
  then show ?thesis by simp
qed

lemmas ev8 = CreateRepo_def createRepoDiffMaps_def newDriver_def alloc_def diffMap_insert_def
  zeroDiffInfo_def NewCommit_def Let_def StartCommit_shard_def StartCommit_branchTip_def insertLeaf_def
  diffMap_get_def diffMap_pop_def FinishCommit_def FinishCommit_shard_def canonicalCommit_def ts_def

lemma self_state:
  "diffMap_get (finished C1_self) \<lparr>Commit = NewCommit ''r'' ''c1'', Shard = 0\<rparr> = Some 1 \<and>
   ParentCommit (heap C1_self 1) = Some (NewCommit ''r'' ''c1'') \<and>
   \<not> hasAppend (heap C1_self 1) (path_Clean ''a'')"
  by (simp add: C1_self_def ev8 hasAppend_def)


section \<open>Lemmas about rebuilding a shard\<close>

lemma pop_empty: "diffMap_pop Map.empty k = (None, Map.empty)"
  by (simp add: diffMap_pop_def)

lemma insert_empty: "diffMap_insert h Map.empty p b = Inl (RepoNotFound (RepoName (Commit (Diff (h p)))))"
  by (simp add: diffMap_insert_def Let_def)

lemma parent_empty:
  "AddShard_parent d Map.empty shard parentCommit = (e, d', lv) \<Longrightarrow> e = None \<Longrightarrow> lv = Map.empty"
  by (cases parentCommit) (auto simp: AddShard_parent_def pop_empty insert_empty Let_def split: prod.splits)

lemma recv_fails: "fst (AddShard_recv d Map.empty shard diffInfo) \<noteq> None"
proof -
  obtain p d0 where a: "alloc d diffInfo = (p, d0)" by (cases "alloc d diffInfo") auto
  define d1 where "d1 = (if finished d0 (RepoName (Commit (Diff diffInfo))) = None
     then createRepoDiffMaps d0 (RepoName (Commit (Diff diffInfo))) else d0)"
  show ?thesis
  proof (cases "diffMap_insert (heap d1) (finished d1) p False")
    case (Inl err)
    then show ?thesis using a by (simp add: AddShard_recv_def Let_def d1_def)
  next
    case (Inr f)
    obtain e d2 lv1 where q: "AddShard_parent (d1\<lparr>finished := f\<rparr>) Map.empty shard (ParentCommit diffInfo) = (e, d2, lv1)"
      by (cases "AddShard_parent (d1\<lparr>finished := f\<rparr>) Map.empty shard (ParentCommit diffInfo)") auto
    show ?thesis
    proof (cases e)
      case None
      then have "lv1 = Map.empty" using parent_empty [OF q] by simp
      then show ?thesis using a Inr q None
        by (simp add: AddShard_recv_def Let_def d1_def [symmetric] pop_empty insert_empty)
    next
      case (Some err)
      then show ?thesis using a Inr q
        by (simp add: AddShard_recv_def Let_def d1_def [symmetric])
    qed
  qed
qed

lemma replay_S2_sent: "replay 0 S2_sent =
  [Inr (zeroDiffInfo\<lparr>Diff := \<lparr>Commit = NewCommit ''r'' [], Shard = 0\<rparr>, Finished := ts 0\<rparr>),
   Inr \<lparr>Diff = \<lparr>Commit = NewCommit ''r'' ''c1'', Shard = 0\<rparr>, ParentCommit = None,
        Appends = Some [''.'' \<mapsto> \<lparr>BlockRefs = [], Children = [''a''], LastRef = None\<rparr>,
                        ''a'' \<mapsto> \<lparr>BlockRefs = [ref1], Children = [], LastRef = None\<rparr>],
        SizeBytes = 5, Started = ts 1, Finished = ts 2, Branch = []\<rparr>]"
  by (simp add: replay_def S2_sent_def S2_put_def S2_started_def S1_def ev)

section \<open>Termination of the directory walk\<close>

text \<open>
  Claim C10. \<^verbatim>\<open>addDirs\<close> is called by \<^verbatim>\<open>PutFile\<close> on a diff of the started view, whose
  \<^verbatim>\<open>Appends\<close> map \<^verbatim>\<open>StartCommit\<close> has allocated. On such a diff the walk returns exactly
  when applying \<^verbatim>\<open>path.Dir\<close> to the file's path once or more reaches \<^verbatim>\<open>"."\<close>; it
  returns for every path that does not begin with a slash; and when it returns, every
  directory walked, up to and including \<^verbatim>\<open>"."\<close>, has the path walked just before it
  (first the file, then the directory below) among its \<^verbatim>\<open>Children\<close>, and nothing
  recorded before is lost.
\<close>

theorem addDirs_termination:
  "Appends diffInfo = Some appends \<Longrightarrow>
   ((\<exists>r. addDirs diffInfo child = Some r) \<longleftrightarrow> (\<exists>n. (path_Dir ^^ Suc n) (Path child) = ''.'')) \<and>
   (relp (Path child) \<longrightarrow> (\<exists>diffInfo'. addDirs diffInfo child = Some (Inr diffInfo'))) \<and>
   (\<forall>diffInfo'. addDirs diffInfo child = Some (Inr diffInfo') \<longrightarrow>
      (\<exists>r. Appends diffInfo' = Some r \<and> keeps appends r \<and>
           chain_recorded (Path child) (path_Dir (Path child)) r))"
proof -
  assume a: "Appends diffInfo = Some appends"
  let ?loop = "addDirs_loop appends (Path child) (path_Dir (Path child))"
  have ret: "(\<exists>r. addDirs diffInfo child = Some r) \<longleftrightarrow> (\<exists>r. ?loop = Some r)"
    using a by (cases ?loop) (simp_all add: addDirs_def)
  have reach: "(\<exists>r. ?loop = Some r) \<longleftrightarrow> (\<exists>n. (path_Dir ^^ n) (path_Dir (Path child)) = ''.'')"
    using addDirs_loop_reaches addDirs_loop_returns by blast
  have 1: "(\<exists>r. addDirs diffInfo child = Some r) \<longleftrightarrow> (\<exists>n. (path_Dir ^^ Suc n) (Path child) = ''.'')"
    using ret reach by (simp add: funpow_swap1)
  have 2: "\<exists>diffInfo'. addDirs diffInfo child = Some (Inr diffInfo')" if r: "relp (Path child)"
  proof -
    obtain n where "(path_Dir ^^ n) (path_Dir (Path child)) = ''.''"
      using rel_Dir_reaches [OF r] by blast
    then obtain x where "?loop = Some x" using addDirs_loop_returns by blast
    then show ?thesis using a by (simp add: addDirs_def)
  qed
  have 3: "\<exists>r. Appends diffInfo' = Some r \<and> keeps appends r \<and>
           chain_recorded (Path child) (path_Dir (Path child)) r"
    if r: "addDirs diffInfo child = Some (Inr diffInfo')" for diffInfo'
  proof -
    obtain x where x: "?loop = Some x" "diffInfo' = diffInfo\<lparr>Appends := Some x\<rparr>"
      using r a by (cases ?loop) (auto simp: addDirs_def)
    from addDirs_loop_recorded [OF x(1)] show ?thesis using x(2) by simp
  qed
  show ?thesis using 1 2 3 by blast
qed

theorem addDirs_termination_witness:
  "Appends (zeroDiffInfo\<lparr>Appends := Some Map.empty\<rparr>) = Some Map.empty \<and>
   relp (Path (NewFile ''r'' ''c1'' ''a'')) \<and>
   (\<exists>diffInfo'. addDirs (zeroDiffInfo\<lparr>Appends := Some Map.empty\<rparr>) (NewFile ''r'' ''c1'' ''a'') =
      Some (Inr diffInfo') \<and>
      (\<exists>r. Appends diffInfo' = Some r \<and> keeps Map.empty r \<and> chain_recorded ''a'' ''.'' r))"
proof -
  have h: "Appends (zeroDiffInfo\<lparr>Appends := Some Map.empty\<rparr>) = Some Map.empty" by simp
  have r: "relp (Path (NewFile ''r'' ''c1'' ''a''))" by (simp add: relp_def NewFile_def)
  have p: "Path (NewFile ''r'' ''c1'' ''a'') = ''a''" by (simp add: NewFile_def)
  show ?thesis
    using addDirs_termination [OF h, of "NewFile ''r'' ''c1'' ''a''"] h r
    by (auto simp: p Dir_a)
qed

section \<open>What the resolver returns\<close>

text \<open>
  Claim C3, the amended statement. Whenever \<^verbatim>\<open>inspectFile\<close> returns a result, the
  commits it visited that carry an append for the cleaned path form a chain \<open>xs\<close>, newest
  first; the block refs returned are the filtered refs of these appends, the oldest
  commit's first (each visit puts its refs in front of the list), and \<^verbatim>\<open>SizeBytes\<close> is
  the sum, in 64-bit arithmetic, of \<^verbatim>\<open>Upper - Lower\<close> over the refs returned. In the
  three-commit scenario written with the relative path \<^verbatim>\<open>a\<close> the file of \<^verbatim>\<open>c3\<close> is
  regular, has \<^verbatim>\<open>SizeBytes\<close> 6, and the ref of \<^verbatim>\<open>c1\<close> comes before the ref of \<^verbatim>\<open>c3\<close>.
\<close>

theorem inspectFile_blockRefs:
  "(inspectFile FIS BIS d fl fs shard frm = Some (Inr (fileInfo, blockRefs)) \<longrightarrow>
     (\<exists>xs. visits d (path_Clean (Path fl)) shard frm (Some (f_Commit fl)) xs \<and>
           blockRefs = concat (map (flt BIS fs) (rev xs)) \<and>
           fi_SizeBytes fileInfo = sum_list (map (\<lambda>b. Upper (BRange b) - Lower (BRange b)) blockRefs))) \<and>
   inspectFile (\<lambda>_ _. True) (\<lambda>_ _. True) S3 (NewFile ''r'' ''c3'' ''a'') () 0 None =
     Some (Inr (\<lparr>fi_File = NewFile ''r'' ''c3'' ''a'', fi_FileType = FILE_TYPE_REGULAR, fi_SizeBytes = 6,
                 fi_Children = [], fi_CommitModified = Some (NewCommit ''r'' ''c3''), fi_Modified = ts 6\<rparr>,
                [ref1, ref3]))"
proof (rule conjI)
  show "inspectFile FIS BIS d fl fs shard frm = Some (Inr (fileInfo, blockRefs)) \<longrightarrow>
     (\<exists>xs. visits d (path_Clean (Path fl)) shard frm (Some (f_Commit fl)) xs \<and>
           blockRefs = concat (map (flt BIS fs) (rev xs)) \<and>
           fi_SizeBytes fileInfo = sum_list (map (\<lambda>b. Upper (BRange b) - Lower (BRange b)) blockRefs))"
    by (rule impI) (rule inspectFile_general)
  show "inspectFile (\<lambda>_ _. True) (\<lambda>_ _. True) S3 (NewFile ''r'' ''c3'' ''a'') () 0 None =
     Some (Inr (\<lparr>fi_File = NewFile ''r'' ''c3'' ''a'', fi_FileType = FILE_TYPE_REGULAR, fi_SizeBytes = 6,
                 fi_Children = [], fi_CommitModified = Some (NewCommit ''r'' ''c3''), fi_Modified = ts 6\<rparr>,
                [ref1, ref3]))"
    by (simp add: S3_def S3_put_def S3_started_def S3_c2_def S2_def S2_put_def S2_started_def S1_def ev)
qed

theorem inspectFile_blockRefs_witness:
  "inspectFile (\<lambda>_ _. True) (\<lambda>_ _. True) S3 (NewFile ''r'' ''c3'' ''a'') () 0 None =
     Some (Inr (\<lparr>fi_File = NewFile ''r'' ''c3'' ''a'', fi_FileType = FILE_TYPE_REGULAR, fi_SizeBytes = 6,
                 fi_Children = [], fi_CommitModified = Some (NewCommit ''r'' ''c3''), fi_Modified = ts 6\<rparr>,
                [ref1, ref3])) \<and>
   (\<exists>xs. visits S3 (path_Clean (Path (NewFile ''r'' ''c3'' ''a''))) 0 None
            (Some (f_Commit (NewFile ''r'' ''c3'' ''a''))) xs \<and>
         [ref1, ref3] = concat (map (flt (\<lambda>_ _. True) ()) (rev xs)))"
  using inspectFile_blockRefs
    [of "\<lambda>_ _. True" "\<lambda>_ _. True" S3 "NewFile ''r'' ''c3'' ''a''" "()" 0 None
        "\<lparr>fi_File = NewFile ''r'' ''c3'' ''a'', fi_FileType = FILE_TYPE_REGULAR, fi_SizeBytes = 6,
          fi_Children = [], fi_CommitModified = Some (NewCommit ''r'' ''c3''), fi_Modified = ts 6\<rparr>"
        "[ref1, ref3]"]
  by blast

text \<open>
  The scenario as the claim has it writes the file under the rooted path \<^verbatim>\<open>/a\<close>. On that
  path the \<^verbatim>\<open>PutFile\<close> of commit \<^verbatim>\<open>c1\<close> does not return: the directory walk goes from
  \<^verbatim>\<open>/a\<close> to \<^verbatim>\<open>/\<close> and stays there. So the scenario yields no state to inspect and no
  size 6.
\<close>

theorem inspectFile_scenario_counterexample:
  "PutFile S2_started None (Inr [ref1]) (NewFile ''r'' ''c1'' ''/a'') 0 = None"
  by (simp add: S2_started_def S1_def PutFile_def PutFile_write_def NewFile_def canonicalCommit_def diffMap_get_def
      CreateRepo_def createRepoDiffMaps_def newDriver_def alloc_def diffMap_insert_def zeroDiffInfo_def
      NewCommit_def Let_def StartCommit_shard_def StartCommit_branchTip_def insertLeaf_def
      diffMap_pop_def addDirs_def Dir_slash_a addDirs_loop_root ts_def)

section \<open>Finishing a commit\<close>



section \<open>The last reference of a file\<close>

text \<open>
  Claim C8, the amended statement. \<^verbatim>\<open>lastRef\<close> returns \<open>r\<close> exactly when the walk from
  its argument along the \<^verbatim>\<open>ParentCommit\<close> links, through finished diffs that lack the
  cleaned path, stops after finitely many commits at a point where \<open>r\<close> is the outcome:
  \<open>nil\<close> where the links end, the commit reached where its finished diff has the path
  (the nearest such ancestor, the argument included), and a nil dereference where the
  commit reached has no diff in finished. A walk that never stops returns nothing.
\<close>

theorem lastRef_lineage:
  "(lastRef d file shard = Some r) =
   (\<exists>cs stop. lineage d (Path file) shard (Some (f_Commit file)) cs stop \<and>
               lastRef_outcome d (Path file) shard stop r)"
proof
  assume "lastRef d file shard = Some r"
  then show "\<exists>cs stop. lineage d (Path file) shard (Some (f_Commit file)) cs stop \<and>
               lastRef_outcome d (Path file) shard stop r"
    using lastRef_loop_lineage by (simp add: lastRef_def)
next
  assume "\<exists>cs stop. lineage d (Path file) shard (Some (f_Commit file)) cs stop \<and>
               lastRef_outcome d (Path file) shard stop r"
  then obtain cs stop where l: "lineage d (Path file) shard (Some (f_Commit file)) cs stop"
    and o: "lastRef_outcome d (Path file) shard stop r" by blast
  show "lastRef d file shard = Some r"
    using lineage_lastRef_loop [OF l] outcome_lastRef_loop [OF o] by (simp add: lastRef_def)
qed

theorem lastRef_lineage_witness:
  "lastRef S3_c2 (NewFile ''r'' ''c2'' ''a'') 0 = Some (Inr (Some (NewCommit ''r'' ''c1''))) \<and>
   (\<exists>cs stop. lineage S3_c2 (Path (NewFile ''r'' ''c2'' ''a'')) 0 (Some (f_Commit (NewFile ''r'' ''c2'' ''a''))) cs stop \<and>
       lastRef_outcome S3_c2 (Path (NewFile ''r'' ''c2'' ''a'')) 0 stop (Inr (Some (NewCommit ''r'' ''c1''))))"
proof -
  have e: "lastRef S3_c2 (NewFile ''r'' ''c2'' ''a'') 0 = Some (Inr (Some (NewCommit ''r'' ''c1'')))"
    by (simp add: S3_c2_def S2_def S2_put_def S2_started_def S1_def ev)
  show ?thesis
    using e lastRef_lineage [of S3_c2 "NewFile ''r'' ''c2'' ''a''" 0 "Inr (Some (NewCommit ''r'' ''c1''))"]
    by simp
qed

text \<open>
  The claim as stated asks only that every commit reached has a diff in finished. Commit
  \<^verbatim>\<open>c1\<close> started with itself as parent and then finished meets that: the only commit
  reached is \<^verbatim>\<open>c1\<close>. Yet \<^verbatim>\<open>lastRef\<close> does not return on it.
\<close>

theorem lastRef_cycle_counterexample:
  "diffMap_get (finished C1_self) \<lparr>Commit = NewCommit ''r'' ''c1'', Shard = 0\<rparr> = Some 1 \<and>
   ParentCommit (heap C1_self 1) = Some (NewCommit ''r'' ''c1'') \<and>
   lastRef C1_self (NewFile ''r'' ''c1'' ''a'') 0 = None"
proof -
  have "lastRef_loop C1_self ''a'' 0 (Some (NewCommit ''r'' ''c1'')) = None"
    using self_state by (intro lastRef_loop_cycle [where p = 1]) simp_all
  then show ?thesis using self_state by (simp add: lastRef_def NewFile_def)
qed

section \<open>Rebuilding a shard from the block store\<close>

text \<open>
  Claim C1, the code at the failing input. \<^verbatim>\<open>AddShard\<close> returns an error as soon as the
  stream delivers one item, whatever the driver and the item: the local \<^verbatim>\<open>leaves\<close> map
  of the call has no repo layer, so the insertion into it fails with
  \<^verbatim>\<open>repo <name> not found\<close>. On a new driver, with the DiffInfos sent on the way to
  \<open>S2\<close> replayed for shard 0, it stops at the first of them: the diff of \<^verbatim>\<open>c1\<close>, which
  \<open>S2\<close> has in finished and in leaves, is in neither view of the rebuilt driver.
\<close>

theorem AddShard_replay_fails:
  "fst (AddShard d bc listErr shard (item # items) keys) \<noteq> None \<and>
   fst (AddShard newDriver None None 0 (replay 0 S2_sent) keys) = Some (RepoNotFound ''r'') \<and>
   diffMap_get (finished (snd (AddShard newDriver None None 0 (replay 0 S2_sent) keys)))
     \<lparr>Commit = NewCommit ''r'' ''c1'', Shard = 0\<rparr> = None \<and>
   diffMap_get (leaves (snd (AddShard newDriver None None 0 (replay 0 S2_sent) keys)))
     \<lparr>Commit = NewCommit ''r'' ''c1'', Shard = 0\<rparr> = None \<and>
   diffMap_get (finished S2) \<lparr>Commit = NewCommit ''r'' ''c1'', Shard = 0\<rparr> = Some 2 \<and>
   diffMap_get (leaves S2) \<lparr>Commit = NewCommit ''r'' ''c1'', Shard = 0\<rparr> = Some 2"
proof -
  have g: "fst (AddShard d bc listErr shard (item # items) keys) \<noteq> None"
  proof (cases item)
    case (Inl e)
    then show ?thesis by (simp add: AddShard_def split: option.splits)
  next
    case (Inr di)
    obtain e d' lv where r: "AddShard_recv d Map.empty shard di = (e, d', lv)"
      by (cases "AddShard_recv d Map.empty shard di") auto
    then have "e \<noteq> None" using recv_fails [of d shard di] by simp
    then show ?thesis using r Inr by (auto simp: AddShard_def split: option.splits)
  qed
  have s2: "diffMap_get (finished S2) \<lparr>Commit = NewCommit ''r'' ''c1'', Shard = 0\<rparr> = Some 2 \<and>
     diffMap_get (leaves S2) \<lparr>Commit = NewCommit ''r'' ''c1'', Shard = 0\<rparr> = Some 2"
    by (simp add: S2_def S2_put_def S2_started_def S1_def ev)
  have run: "fst (AddShard newDriver None None 0 (replay 0 S2_sent) keys) = Some (RepoNotFound ''r'') \<and>
     diffMap_get (finished (snd (AddShard newDriver None None 0 (replay 0 S2_sent) keys)))
       \<lparr>Commit = NewCommit ''r'' ''c1'', Shard = 0\<rparr> = None \<and>
     diffMap_get (leaves (snd (AddShard newDriver None None 0 (replay 0 S2_sent) keys)))
       \<lparr>Commit = NewCommit ''r'' ''c1'', Shard = 0\<rparr> = None"
    by (simp only: replay_S2_sent)
       (simp add: AddShard_def AddShard_recv_def AddShard_parent_def alloc_def createRepoDiffMaps_def
          newDriver_def diffMap_insert_def diffMap_pop_def diffMap_get_def zeroDiffInfo_def NewCommit_def
          Let_def ts_def)
  show ?thesis using g s2 run by simp
qed

section \<open>Inserting under a branch name\<close>

text \<open>
  Claim C6, the code at the failing inputs. \<^verbatim>\<open>insert\<close> with \<^verbatim>\<open>branch\<close> set tests the
  commit id and writes under the branch name. In an index that binds only \<^verbatim>\<open>main\<close>,
  inserting the diff of a commit called \<^verbatim>\<open>main\<close> under the free name \<^verbatim>\<open>dev\<close> fails with
  \<^verbatim>\<open>commit r/main already exists\<close>; inserting the diff of commit \<^verbatim>\<open>c2\<close> under the
  bound name \<^verbatim>\<open>main\<close> succeeds and rebinds it. Through \<^verbatim>\<open>StartCommit\<close>: on a repo
  whose branch \<^verbatim>\<open>main\<close> has the finished tip \<^verbatim>\<open>c1\<close>, starting a commit called \<^verbatim>\<open>main\<close>
  on the new branch \<^verbatim>\<open>dev\<close> fails in the same way.
\<close>

theorem insert_branch_key:
  "diffMap_insert insertHeap branchIndex 1 True = Inl (CommitExists ''r'' ''main'') \<and>
   diffMap_insert insertHeap branchIndex 2 True = Inr [''r'' \<mapsto> [0 \<mapsto> [''main'' \<mapsto> 2]]] \<and>
   fst (StartCommit
         (snd (StartCommit (fst (snd (CreateRepo newDriver None None ''r'' None [0])))
                 ''r'' ''c1'' [] ''main'' None [0]))
         ''r'' ''main'' [] ''dev'' None [0]) = Some (CommitExists ''r'' ''main'')"
proof -
  have 1: "diffMap_insert insertHeap branchIndex 1 True = Inl (CommitExists ''r'' ''main'')"
    by (simp add: diffMap_insert_def insertHeap_def branchIndex_def newDev_def tipMain_def newMain_def
        zeroDiffInfo_def NewCommit_def Let_def)
  have 2: "diffMap_insert insertHeap branchIndex 2 True = Inr [''r'' \<mapsto> [0 \<mapsto> [''main'' \<mapsto> 2]]]"
    by (simp add: diffMap_insert_def insertHeap_def branchIndex_def newDev_def tipMain_def newMain_def
        zeroDiffInfo_def NewCommit_def Let_def)
  have 3: "fst (StartCommit
         (snd (StartCommit (fst (snd (CreateRepo newDriver None None ''r'' None [0])))
                 ''r'' ''c1'' [] ''main'' None [0]))
         ''r'' ''main'' [] ''dev'' None [0]) = Some (CommitExists ''r'' ''main'')"
    by (simp add: ev8)
  show ?thesis using 1 2 3 by simp
qed

section \<open>Starting a commit on a branch\<close>

text \<open>
  Claim C5, the code at the failing input. In \<open>B2\<close> the branch \<^verbatim>\<open>main\<close> has the tip
  \<^verbatim>\<open>c1\<close>, which is finished, and \<^verbatim>\<open>dev\<close> is another branch. Starting a commit called
  \<^verbatim>\<open>dev\<close> on \<^verbatim>\<open>main\<close>, with no parent given, passes both tests on the tip; but the
  branch entry, once popped, is not replaced by the new diff: the insertion into the
  branches view fails with \<^verbatim>\<open>commit r/dev already exists\<close> and \<^verbatim>\<open>main\<close> is left
  without a tip.
\<close>

theorem StartCommit_branch_tip_lost:
  "diffMap_get (branches B2) \<lparr>Commit = NewCommit ''r'' ''main'', Shard = 0\<rparr> = Some 2 \<and>
   Diff (heap B2 2) = \<lparr>Commit = NewCommit ''r'' ''c1'', Shard = 0\<rparr> \<and>
   diffMap_get (finished B2) (Diff (heap B2 2)) = Some 2 \<and>
   fst (StartCommit B2 ''r'' ''dev'' [] ''main'' (ts 5) [0]) = Some (CommitExists ''r'' ''dev'') \<and>
   diffMap_get (branches (snd (StartCommit B2 ''r'' ''dev'' [] ''main'' (ts 5) [0])))
     \<lparr>Commit = NewCommit ''r'' ''main'', Shard = 0\<rparr> = None"
  by (simp add: B2_def B1_def B0_def ev)

section \<open>Reading a file from an offset\<close>

text \<open>
  Claim C7, the code at the failing input. On a file of a 2-byte and a 10-byte block,
  read from offset 5, the reader should skip the first block and open the second at
  offset 3. The skipping loop compares the offset with the size of the first block at
  every turn, so it skips the second block too, and \<^verbatim>\<open>Read\<close> then indexes the block list
  at 2, out of range.
\<close>

theorem fileReader_skips_past_the_end:
  "fileReader_Read GetBlock (newFileReader twoBlocks 5 3) n =
     Some (([], Some (Panic ''index out of range'')),
           (newFileReader twoBlocks 5 3)\<lparr>r_index := 2, r_offset := 1\<rparr>)"
  by (simp add: fileReader_Read_def fileReader_open_def newFileReader_def twoBlocks_def index_BlockRef_def
      fileReader_skip.simps ByteRangeSize_def Let_def word_sless_alt)

section \<open>Inspecting a commit on no shard\<close>

text \<open>
  Claim C9. \<^verbatim>\<open>InspectCommit\<close> called with an empty shard set returns the error
  \<^verbatim>\<open>commit <repo>/<id> not found\<close> for every commit and every driver state, also a
  state that holds diffs of that commit: the loop over the shards produces no
  \<^verbatim>\<open>CommitInfo\<close>, so the reduced list is empty.
\<close>

theorem InspectCommit_no_shards:
  "InspectCommit d commit [] = Inl (CommitNotFound (RepoName commit) (ID commit))"
  by (simp add: InspectCommit_def inspectCommit_def ReduceCommitInfos_def)

end
